theory Spec2Isabelle
  imports Main "HOL-Library.Word"
begin

section \<open>Memory model\<close>

text \<open>
  The library of \<^verbatim>\<open>smart_pointers.h\<close> manipulates heap-allocated control blocks through
  raw pointers. The embedding keeps an explicit store: a map from addresses to control
  blocks, and a second map holding, for every live pointee that carries the
  \<^verbatim>\<open>EnableSharedFromThis\<close> base, its member \<^verbatim>\<open>weak_this\<close>.
  A pointer is an \<open>addr option\<close>; \<open>None\<close> is \<^verbatim>\<open>nullptr\<close>.
  \<^verbatim>\<open>size_t\<close> is a 64-bit word, so \<^verbatim>\<open>++\<close> and \<^verbatim>\<open>--\<close> wrap.
\<close>

type_synonym addr = nat

type_synonym size_t = "64 word"

text \<open>The two final classes derived from \<^verbatim>\<open>BaseControlBlock\<close>. \<open>FromPointer\<close> carries
  the member \<^verbatim>\<open>pobj\<close>.\<close>

datatype variant = Embeded | FromPointer "addr option"

text \<open>
  \<open>shared_count\<close> and \<open>weak_count\<close> are the members of \<^verbatim>\<open>BaseControlBlock\<close>.
  \<open>destroyed_at\<close> and \<open>dealloc_calls\<close> record what the collaborators were asked to do:
  every run of \<^verbatim>\<open>destroy_object\<close> (the pointee's destructor, or the deleter) appends the
  value of \<open>shared_count\<close> it could observe at that moment, and every
  \<^verbatim>\<open>AllocTraits::deallocate\<close> of the block's storage is counted.
\<close>

record block =
  shared_count :: size_t
  weak_count :: size_t
  variant :: variant
  destroyed_at :: "size_t list"
  dealloc_calls :: nat

record SharedPtr =
  control_block :: "addr option"
  pointer :: "addr option"

record WeakPtr =
  wcontrol_block :: "addr option"

record heap =
  blocks :: "addr \<rightharpoonup> block"
  objs :: "addr \<rightharpoonup> WeakPtr"

text \<open>Exceptions the code lets escape, and the kinds of undefined behaviour it can reach.\<close>

datatype exn = bad_alloc | pointee_ctor_failed | bad_weak_ptr

datatype ub = NullDeref | Dangling | NoSuchHandle | IllFormed

text \<open>
  Every operation returns its value together with the heap it leaves. An exception
  carries the heap at the moment it leaves the library; after undefined behaviour there
  is no meaningful heap.
\<close>

datatype 'a result = Ok 'a heap | Throw exn heap | Undefined ub

definition then_do :: "'a result \<Rightarrow> ('a \<Rightarrow> heap \<Rightarrow> 'b result) \<Rightarrow> 'b result" where
  "then_do r f = (case r of Ok x h \<Rightarrow> f x h | Throw e h \<Rightarrow> Throw e h | Undefined u \<Rightarrow> Undefined u)"

text \<open>The offset of the member \<^verbatim>\<open>obj\<close> inside a \<^verbatim>\<open>ControlBlockEmbeded\<close>: the vtable pointer and
  the two counters precede it.\<close>

definition obj_offset :: nat where
  "obj_offset = 24"

definition obj_addr :: "addr \<Rightarrow> addr" where
  "obj_addr a = a + obj_offset"

text \<open>Reading through a \<^verbatim>\<open>BaseControlBlock*\<close>: null, never constructed, or already deallocated
  storage is undefined behaviour.\<close>

definition deref :: "addr option \<Rightarrow> heap \<Rightarrow> (addr \<times> block) result" where
  "deref cb h =
     (case cb of
        None \<Rightarrow> Undefined NullDeref
      | Some a \<Rightarrow>
          (case blocks h a of
             None \<Rightarrow> Undefined Dangling
           | Some blk \<Rightarrow> if 0 < dealloc_calls blk then Undefined Dangling else Ok (a, blk) h))"

definition put :: "addr \<Rightarrow> block \<Rightarrow> heap \<Rightarrow> heap" where
  "put a blk h = h\<lparr>blocks := (blocks h)(a \<mapsto> blk)\<rparr>"

text \<open>The constructor of \<^verbatim>\<open>BaseControlBlock\<close>: both counters start at 0.\<close>

definition BaseControlBlock :: "variant \<Rightarrow> block" where
  "BaseControlBlock v =
     \<lparr>shared_count = 0, weak_count = 0, variant = v, destroyed_at = [], dealloc_calls = 0\<rparr>"

text \<open>\<^verbatim>\<open>ControlBlockEmbeded::get_pointer\<close> (lines 257-261) and
  \<^verbatim>\<open>ControlBlockFromPointer::get_pointer\<close> (lines 269-273).\<close>

definition get_pointer :: "addr \<Rightarrow> block \<Rightarrow> addr option" where
  "get_pointer a blk = (case variant blk of Embeded \<Rightarrow> Some (obj_addr a) | FromPointer p \<Rightarrow> p)"

text \<open>
  \<^verbatim>\<open>control_block->~BaseControlBlock()\<close> (lines 242 and 461), a virtual call that reaches
  \<^verbatim>\<open>~ControlBlockEmbeded\<close> or \<^verbatim>\<open>~ControlBlockFromPointer\<close> (lines 296-312). The body of
  either destructor hands the storage of \<^verbatim>\<open>this\<close> back to the allocator. The body is not
  the whole destructor: after it the members and then the base \<^verbatim>\<open>BaseControlBlock\<close>,
  whose destructor is virtual (line 35), are destroyed, in the storage that has just
  been given back.
\<close>

definition destroy_block :: "addr \<Rightarrow> heap \<Rightarrow> unit result" where
  "destroy_block a h =
     then_do (deref (Some a) h) (\<lambda>(_, blk) h1.
       let h2 = put a (blk\<lparr>dealloc_calls := dealloc_calls blk + 1\<rparr>) h1
       in then_do (deref (Some a) h2) (\<lambda>_ h3. Ok () h3))"

section \<open>Releasing handles\<close>

definition empty_SharedPtr :: SharedPtr where
  "empty_SharedPtr = \<lparr>control_block = None, pointer = None\<rparr>"

definition empty_WeakPtr :: WeakPtr where
  "empty_WeakPtr = \<lparr>wcontrol_block = None\<rparr>"

text \<open>\<^verbatim>\<open>WeakPtr::unlink_weak_pointer_from_the_control_block\<close> (lines 456-464).\<close>

definition unlink_weak_pointer_from_the_control_block :: "WeakPtr \<Rightarrow> heap \<Rightarrow> WeakPtr result" where
  "unlink_weak_pointer_from_the_control_block w h =
     (case wcontrol_block w of
        None \<Rightarrow> Ok w h
      | Some _ \<Rightarrow>
          then_do (deref (wcontrol_block w) h) (\<lambda>(a, blk) h1.
            let blk1 = blk\<lparr>weak_count := weak_count blk - 1\<rparr>;
                h2 = put a blk1 h1
            in if shared_count blk1 = 0 \<and> weak_count blk1 = 0
               then then_do (destroy_block a h2) (\<lambda>_ h3. Ok empty_WeakPtr h3)
               else Ok empty_WeakPtr h2))"

text \<open>
  \<^verbatim>\<open>destroy_object\<close> (lines 248-255 and 263-267). For the embedded variant
  \<^verbatim>\<open>AllocTraits::destroy\<close> runs the pointee's destructor; when the pointee has the
  \<^verbatim>\<open>EnableSharedFromThis\<close> base this destroys the member \<^verbatim>\<open>weak_this\<close>, whose destructor
  (lines 434-437) unlinks it. For the external variant the deleter is called on
  \<^verbatim>\<open>pobj\<close>.
\<close>

definition destroy_object :: "addr \<Rightarrow> heap \<Rightarrow> unit result" where
  "destroy_object a h =
     then_do (deref (Some a) h) (\<lambda>(_, blk) h1.
       let h2 = put a (blk\<lparr>destroyed_at := destroyed_at blk @ [shared_count blk]\<rparr>) h1
       in case variant blk of
            FromPointer p \<Rightarrow> Ok () h2
          | Embeded \<Rightarrow>
              (case objs h2 (obj_addr a) of
                 None \<Rightarrow> Ok () h2
               | Some w \<Rightarrow>
                   then_do (unlink_weak_pointer_from_the_control_block w h2) (\<lambda>_ h3.
                     Ok () (h3\<lparr>objs := (objs h3)(obj_addr a := None)\<rparr>))))"

text \<open>\<^verbatim>\<open>SharedPtr::unlink_shared_pointer_from_the_control_block\<close> (lines 230-246).\<close>

definition unlink_shared_pointer_from_the_control_block :: "SharedPtr \<Rightarrow> heap \<Rightarrow> SharedPtr result" where
  "unlink_shared_pointer_from_the_control_block sp h =
     (case control_block sp of
        None \<Rightarrow> Ok sp h
      | Some _ \<Rightarrow>
          then_do (deref (control_block sp) h) (\<lambda>(a, blk) h1.
            if 1 < shared_count blk
            then Ok empty_SharedPtr (put a (blk\<lparr>shared_count := shared_count blk - 1\<rparr>) h1)
            else
              then_do (destroy_object a h1) (\<lambda>_ h2.
                then_do (deref (Some a) h2) (\<lambda>(_, blk2) h3.
                  let blk3 = blk2\<lparr>shared_count := shared_count blk2 - 1\<rparr>;
                      h4 = put a blk3 h3
                  in if weak_count blk3 = 0
                     then then_do (destroy_block a h4) (\<lambda>_ h5. Ok empty_SharedPtr h5)
                     else Ok empty_SharedPtr h4))))"

section \<open>Owning handles\<close>

text \<open>The default constructor (line 83).\<close>

definition SharedPtr_default :: SharedPtr where
  "SharedPtr_default = \<lparr>control_block = None, pointer = None\<rparr>"

text \<open>The copy constructor (lines 116-120).\<close>

definition SharedPtr_copy :: "SharedPtr \<Rightarrow> heap \<Rightarrow> SharedPtr result" where
  "SharedPtr_copy other h =
     (let this = \<lparr>control_block = control_block other, pointer = pointer other\<rparr>
      in case control_block this of
           None \<Rightarrow> Ok this h
         | Some _ \<Rightarrow>
             then_do (deref (control_block this) h) (\<lambda>(a, blk) h1.
               Ok this (put a (blk\<lparr>shared_count := shared_count blk + 1\<rparr>) h1)))"

text \<open>
  The converting copy constructor (lines 109-114). \<open>cast\<close> is the address adjustment of
  \<^verbatim>\<open>static_cast<T*>\<close> applied to a non-null \<^verbatim>\<open>Y*\<close>; a null pointer stays null. The control
  block pointer is reinterpreted, which leaves its address as it is.
\<close>

definition SharedPtr_copy_conv :: "(addr \<Rightarrow> addr) \<Rightarrow> SharedPtr \<Rightarrow> heap \<Rightarrow> SharedPtr result" where
  "SharedPtr_copy_conv cast other h =
     (let this = \<lparr>control_block = control_block other, pointer = map_option cast (pointer other)\<rparr>
      in case control_block this of
           None \<Rightarrow> Ok this h
         | Some _ \<Rightarrow>
             then_do (deref (control_block this) h) (\<lambda>(a, blk) h1.
               Ok this (put a (blk\<lparr>shared_count := shared_count blk + 1\<rparr>) h1)))"

text \<open>The move constructors (lines 122-135): the new handle, and what is left of the source.\<close>

definition SharedPtr_move :: "SharedPtr \<Rightarrow> SharedPtr \<times> SharedPtr" where
  "SharedPtr_move other =
     (\<lparr>control_block = control_block other, pointer = pointer other\<rparr>,
      other\<lparr>pointer := None, control_block := None\<rparr>)"

definition SharedPtr_move_conv :: "(addr \<Rightarrow> addr) \<Rightarrow> SharedPtr \<Rightarrow> SharedPtr \<times> SharedPtr" where
  "SharedPtr_move_conv cast other =
     (\<lparr>control_block = control_block other, pointer = map_option cast (pointer other)\<rparr>,
      other\<lparr>pointer := None, control_block := None\<rparr>)"

text \<open>\<^verbatim>\<open>SharedPtr::swap\<close> (lines 206-211).\<close>

definition SharedPtr_swap :: "SharedPtr \<Rightarrow> SharedPtr \<Rightarrow> SharedPtr \<times> SharedPtr" where
  "SharedPtr_swap this other =
     (this\<lparr>control_block := control_block other, pointer := pointer other\<rparr>,
      other\<lparr>control_block := control_block this, pointer := pointer this\<rparr>)"

text \<open>
  Copy assignment (lines 137-147): copy, swap, and the destructor of the local \<^verbatim>\<open>copy\<close>,
  which by then holds what \<^verbatim>\<open>*this\<close> held. \<open>same\<close> is the test \<^verbatim>\<open>&other == this\<close>.
\<close>

definition SharedPtr_assign_copy_tmpl :: "SharedPtr \<Rightarrow> SharedPtr \<Rightarrow> heap \<Rightarrow> SharedPtr result" where
  "SharedPtr_assign_copy_tmpl this other h =
     then_do (SharedPtr_copy other h) (\<lambda>copy h1.
       let (this', copy') = SharedPtr_swap this copy
       in then_do (unlink_shared_pointer_from_the_control_block copy' h1) (\<lambda>_ h2. Ok this' h2))"

definition SharedPtr_assign_copy :: "bool \<Rightarrow> SharedPtr \<Rightarrow> SharedPtr \<Rightarrow> heap \<Rightarrow> SharedPtr result" where
  "SharedPtr_assign_copy same this other h =
     (if same then Ok this h else SharedPtr_assign_copy_tmpl this other h)"

text \<open>
  Move assignment (lines 149-159): returns the target and what is left of the source.
\<close>

definition SharedPtr_assign_move_tmpl ::
  "SharedPtr \<Rightarrow> SharedPtr \<Rightarrow> heap \<Rightarrow> (SharedPtr \<times> SharedPtr) result" where
  "SharedPtr_assign_move_tmpl this other h =
     (let (moved_other, other') = SharedPtr_move other;
          (this', moved_other') = SharedPtr_swap this moved_other
      in then_do (unlink_shared_pointer_from_the_control_block moved_other' h) (\<lambda>_ h1.
           Ok (this', other') h1))"

definition SharedPtr_assign_move ::
  "bool \<Rightarrow> SharedPtr \<Rightarrow> SharedPtr \<Rightarrow> heap \<Rightarrow> (SharedPtr \<times> SharedPtr) result" where
  "SharedPtr_assign_move same this other h =
     (if same then Ok (this, this) h else SharedPtr_assign_move_tmpl this other h)"

text \<open>The destructor (lines 161-163) and \<^verbatim>\<open>reset()\<close> (lines 169-171).\<close>

definition SharedPtr_dtor :: "SharedPtr \<Rightarrow> heap \<Rightarrow> SharedPtr result" where
  "SharedPtr_dtor this h = unlink_shared_pointer_from_the_control_block this h"

definition SharedPtr_reset :: "SharedPtr \<Rightarrow> heap \<Rightarrow> SharedPtr result" where
  "SharedPtr_reset this h = unlink_shared_pointer_from_the_control_block this h"

text \<open>\<^verbatim>\<open>use_count\<close> (lines 165-167), \<^verbatim>\<open>operator->\<close> and \<^verbatim>\<open>operator*\<close> (lines 181-195: the address
  of the object the returned reference or pointer designates), \<^verbatim>\<open>get\<close> (lines 197-203).\<close>

definition use_count :: "SharedPtr \<Rightarrow> heap \<Rightarrow> size_t result" where
  "use_count this h = then_do (deref (control_block this) h) (\<lambda>(_, blk) h1. Ok (shared_count blk) h1)"

definition SharedPtr_arrow :: "SharedPtr \<Rightarrow> heap \<Rightarrow> (addr option) result" where
  "SharedPtr_arrow this h =
     then_do (deref (control_block this) h) (\<lambda>(a, blk) h1. Ok (get_pointer a blk) h1)"

definition SharedPtr_star :: "SharedPtr \<Rightarrow> heap \<Rightarrow> addr result" where
  "SharedPtr_star this h =
     then_do (deref (control_block this) h) (\<lambda>(a, blk) h1.
       case get_pointer a blk of None \<Rightarrow> Undefined NullDeref | Some p \<Rightarrow> Ok p h1)"

definition get :: "SharedPtr \<Rightarrow> addr option" where
  "get this = pointer this"

section \<open>Non-owning handles\<close>

text \<open>The default constructor (lines 487-488).\<close>

definition WeakPtr_default :: WeakPtr where
  "WeakPtr_default = \<lparr>wcontrol_block = None\<rparr>"

text \<open>
  Construction from an owning handle (lines 354-365). The parameter is taken by value:
  the caller has already built it (by copy or by move), and it is destroyed when the
  constructor returns.
\<close>

definition WeakPtr_from_shared :: "SharedPtr \<Rightarrow> heap \<Rightarrow> WeakPtr result" where
  "WeakPtr_from_shared param h =
     then_do (deref (control_block param) h) (\<lambda>(a, blk) h1.
       let h2 = put a (blk\<lparr>weak_count := weak_count blk + 1\<rparr>) h1
       in then_do (SharedPtr_dtor param h2) (\<lambda>_ h3.
            Ok \<lparr>wcontrol_block = control_block param\<rparr> h3))"

text \<open>The copy constructors (lines 367-378): no test for a null block.\<close>

definition WeakPtr_copy :: "WeakPtr \<Rightarrow> heap \<Rightarrow> WeakPtr result" where
  "WeakPtr_copy other h =
     then_do (deref (wcontrol_block other) h) (\<lambda>(a, blk) h1.
       Ok \<lparr>wcontrol_block = wcontrol_block other\<rparr>
          (put a (blk\<lparr>weak_count := weak_count blk + 1\<rparr>) h1))"

text \<open>The move constructors (lines 380-391).\<close>

definition WeakPtr_move :: "WeakPtr \<Rightarrow> WeakPtr \<times> WeakPtr" where
  "WeakPtr_move other =
     (\<lparr>wcontrol_block = wcontrol_block other\<rparr>, other\<lparr>wcontrol_block := None\<rparr>)"

text \<open>\<^verbatim>\<open>WeakPtr::swap\<close> (lines 466-470).\<close>

definition WeakPtr_swap :: "WeakPtr \<Rightarrow> WeakPtr \<Rightarrow> WeakPtr \<times> WeakPtr" where
  "WeakPtr_swap this other =
     (this\<lparr>wcontrol_block := wcontrol_block other\<rparr>,
      other\<lparr>wcontrol_block := wcontrol_block this\<rparr>)"

text \<open>The destructor (lines 434-437) and \<^verbatim>\<open>reset\<close> (lines 482-485).\<close>

definition WeakPtr_dtor :: "WeakPtr \<Rightarrow> heap \<Rightarrow> WeakPtr result" where
  "WeakPtr_dtor this h = unlink_weak_pointer_from_the_control_block this h"

definition WeakPtr_reset :: "WeakPtr \<Rightarrow> heap \<Rightarrow> WeakPtr result" where
  "WeakPtr_reset this h = unlink_weak_pointer_from_the_control_block this h"

text \<open>Assignment from a non-owning handle (lines 393-399 and 414-418).\<close>

definition WeakPtr_assign_copy_tmpl :: "WeakPtr \<Rightarrow> WeakPtr \<Rightarrow> heap \<Rightarrow> WeakPtr result" where
  "WeakPtr_assign_copy_tmpl this other h =
     then_do (WeakPtr_copy other h) (\<lambda>copy h1.
       let (this', copy') = WeakPtr_swap this copy
       in then_do (WeakPtr_dtor copy' h1) (\<lambda>_ h2. Ok this' h2))"

definition WeakPtr_assign_copy :: "bool \<Rightarrow> WeakPtr \<Rightarrow> WeakPtr \<Rightarrow> heap \<Rightarrow> WeakPtr result" where
  "WeakPtr_assign_copy same this other h =
     (if same then Ok this h else WeakPtr_assign_copy_tmpl this other h)"

text \<open>
  Assignment from an owning handle (lines 401-412): \<^verbatim>\<open>WeakPtr<T> copy = other\<close> copies
  \<open>other\<close> into the by-value parameter of the constructor.
\<close>

definition WeakPtr_assign_shared :: "WeakPtr \<Rightarrow> SharedPtr \<Rightarrow> heap \<Rightarrow> WeakPtr result" where
  "WeakPtr_assign_shared this other h =
     then_do (SharedPtr_copy other h) (\<lambda>param h1.
       then_do (WeakPtr_from_shared param h1) (\<lambda>copy h2.
         let (this', copy') = WeakPtr_swap this copy
         in then_do (WeakPtr_dtor copy' h2) (\<lambda>_ h3. Ok this' h3)))"

text \<open>Move assignment (lines 420-432).\<close>

definition WeakPtr_assign_move_tmpl ::
  "WeakPtr \<Rightarrow> WeakPtr \<Rightarrow> heap \<Rightarrow> (WeakPtr \<times> WeakPtr) result" where
  "WeakPtr_assign_move_tmpl this other h =
     (let (moved_copy, other') = WeakPtr_move other;
          (this', moved_copy') = WeakPtr_swap this moved_copy
      in then_do (WeakPtr_dtor moved_copy' h) (\<lambda>_ h1. Ok (this', other') h1))"

definition WeakPtr_assign_move ::
  "bool \<Rightarrow> WeakPtr \<Rightarrow> WeakPtr \<Rightarrow> heap \<Rightarrow> (WeakPtr \<times> WeakPtr) result" where
  "WeakPtr_assign_move same this other h =
     (if same then Ok (this, this) h else WeakPtr_assign_move_tmpl this other h)"

text \<open>\<^verbatim>\<open>WeakPtr::expired\<close> (lines 439-442); \<^verbatim>\<open>||\<close> does not read the block of a null handle.\<close>

definition expired :: "WeakPtr \<Rightarrow> heap \<Rightarrow> bool result" where
  "expired this h =
     (case wcontrol_block this of
        None \<Rightarrow> Ok True h
      | Some _ \<Rightarrow>
          then_do (deref (wcontrol_block this) h) (\<lambda>(_, blk) h1. Ok (shared_count blk = 0) h1))"

text \<open>\<^verbatim>\<open>WeakPtr::use_count\<close> (lines 490-493) and \<^verbatim>\<open>WeakPtr::operator->\<close> (lines 477-480).\<close>

definition WeakPtr_use_count :: "WeakPtr \<Rightarrow> heap \<Rightarrow> size_t result" where
  "WeakPtr_use_count this h =
     then_do (deref (wcontrol_block this) h) (\<lambda>(_, blk) h1. Ok (shared_count blk) h1)"

definition WeakPtr_arrow :: "WeakPtr \<Rightarrow> heap \<Rightarrow> (addr option) result" where
  "WeakPtr_arrow this h =
     then_do (deref (wcontrol_block this) h) (\<lambda>(a, blk) h1. Ok (get_pointer a blk) h1)"

section \<open>The private constructor, \<^verbatim>\<open>lock\<close>, the factory and \<^verbatim>\<open>shared_from_this\<close>\<close>

text \<open>
  The private constructor \<^verbatim>\<open>SharedPtr(T*, BaseControlBlock*)\<close> (lines 74-81). \<open>mx\<close> is the
  compile-time constant \<^verbatim>\<open>std::is_base_of_v<EnableSharedFromThis<T>, T>\<close>. With it, the
  member \<^verbatim>\<open>weak_this\<close> of the object at \<open>ptr\<close> is assigned from \<^verbatim>\<open>*this\<close>.
\<close>

definition SharedPtr_priv :: "bool \<Rightarrow> addr option \<Rightarrow> addr option \<Rightarrow> heap \<Rightarrow> SharedPtr result" where
  "SharedPtr_priv mx ptr cb h =
     then_do (deref cb h) (\<lambda>(a, blk) h1.
       let this = \<lparr>control_block = cb, pointer = ptr\<rparr>;
           h2 = put a (blk\<lparr>shared_count := shared_count blk + 1\<rparr>) h1
       in if mx
          then (case ptr of
                  None \<Rightarrow> Undefined NullDeref
                | Some p \<Rightarrow>
                    (case objs h2 p of
                       None \<Rightarrow> Undefined Dangling
                     | Some weak_this \<Rightarrow>
                         then_do (WeakPtr_assign_shared weak_this this h2) (\<lambda>weak_this' h3.
                           Ok this (h3\<lparr>objs := (objs h3)(p \<mapsto> weak_this')\<rparr>))))
          else Ok this h2)"

text \<open>\<^verbatim>\<open>WeakPtr::lock\<close> (lines 444-454).\<close>

definition lock :: "bool \<Rightarrow> WeakPtr \<Rightarrow> heap \<Rightarrow> SharedPtr result" where
  "lock mx this h =
     then_do (expired this h) (\<lambda>e h1.
       if e then Ok SharedPtr_default h1
       else then_do (deref (wcontrol_block this) h1) (\<lambda>(a, blk) h2.
              SharedPtr_priv mx (get_pointer a blk) (wcontrol_block this) h2))"

text \<open>
  \<^verbatim>\<open>allocateShared\<close> (lines 275-289). The allocator and the pointee's constructor are
  collaborators: \<open>res\<close> is what \<^verbatim>\<open>AllocTraits::allocate\<close> does (\<open>None\<close>: it throws;
  \<open>Some a\<close>: it returns storage at \<open>a\<close>), \<open>ctor_ok\<close> tells whether the pointee's
  constructor, run by \<^verbatim>\<open>AllocTraits::construct\<close> inside the constructor of
  \<^verbatim>\<open>ControlBlockEmbeded\<close> (lines 44-49), returns. The function has no handler, so an
  exception of the pointee's constructor leaves it with the storage still allocated.
  A pointee with the \<^verbatim>\<open>EnableSharedFromThis\<close> base starts with a default-constructed
  \<^verbatim>\<open>weak_this\<close>.
\<close>

definition allocateShared :: "bool \<Rightarrow> addr option \<Rightarrow> bool \<Rightarrow> heap \<Rightarrow> SharedPtr result" where
  "allocateShared mx res ctor_ok h =
     (case res of
        None \<Rightarrow> Throw bad_alloc h
      | Some a \<Rightarrow>
          let h1 = put a (BaseControlBlock Embeded) h
          in if \<not> ctor_ok then Throw pointee_ctor_failed h1
             else
               let h2 = (if mx then h1\<lparr>objs := (objs h1)(obj_addr a \<mapsto> WeakPtr_default)\<rparr> else h1)
               in SharedPtr_priv mx (Some (obj_addr a)) (Some a) h2)"

text \<open>\<^verbatim>\<open>makeShared\<close> (lines 291-294) is \<^verbatim>\<open>allocateShared\<close> with \<^verbatim>\<open>std::allocator\<close>.\<close>

definition makeShared :: "bool \<Rightarrow> addr option \<Rightarrow> bool \<Rightarrow> heap \<Rightarrow> SharedPtr result" where
  "makeShared mx res ctor_ok h = allocateShared mx res ctor_ok h"


text \<open>
  The constructor from a raw pointer (lines 84-107), for \<^verbatim>\<open>Y = T\<close> (the constructor of
  \<^verbatim>\<open>ControlBlockFromPointer<Y, ...>\<close> is handed the member \<^verbatim>\<open>pointer\<close>, a \<^verbatim>\<open>T*\<close>).
  Lines 93-95 assign the \<^verbatim>\<open>BaseControlBlock*\<close> to the \<^verbatim>\<open>WeakPtr<T>\<close> member \<^verbatim>\<open>weak_this\<close>.
  \<^verbatim>\<open>WeakPtr\<close> has no constructor and no assignment from a block pointer: the only viable
  \<^verbatim>\<open>operator=\<close> takes a \<^verbatim>\<open>const SharedPtr<T>&\<close>, reached through the converting constructor
  \<^verbatim>\<open>SharedPtr(Y*)\<close> with \<^verbatim>\<open>Y = BaseControlBlock\<close>, whose body \<^verbatim>\<open>static_cast\<close>s the
  \<^verbatim>\<open>BaseControlBlock*\<close> to \<^verbatim>\<open>T*\<close>. That instantiation is rejected, so for a \<open>T\<close> with the
  \<^verbatim>\<open>EnableSharedFromThis\<close> base the constructor has no behaviour at all; the embedding
  says so with \<open>Undefined IllFormed\<close>.
\<close>

definition SharedPtr_from_pointer ::
  "bool \<Rightarrow> addr option \<Rightarrow> addr option \<Rightarrow> heap \<Rightarrow> SharedPtr result" where
  "SharedPtr_from_pointer mx given_pointer res h =
     (if mx then Undefined IllFormed
      else
        (case res of
           None \<Rightarrow> Throw bad_alloc h
         | Some a \<Rightarrow>
             let this = \<lparr>control_block = Some a, pointer = given_pointer\<rparr>;
                 h1 = put a (BaseControlBlock (FromPointer (pointer this))) h
             in then_do (deref (control_block this) h1) (\<lambda>(_, blk) h2.
                  Ok this (put a (blk\<lparr>shared_count := shared_count blk + 1\<rparr>) h2))))"

text \<open>\<^verbatim>\<open>reset(Y*)\<close> (lines 173-176): move assignment from a temporary, which is then
  destroyed.\<close>

definition SharedPtr_reset_pointer ::
  "bool \<Rightarrow> SharedPtr \<Rightarrow> addr option \<Rightarrow> addr option \<Rightarrow> heap \<Rightarrow> SharedPtr result" where
  "SharedPtr_reset_pointer mx this new_pointer res h =
     then_do (SharedPtr_from_pointer mx new_pointer res h) (\<lambda>tmp h1.
       then_do (SharedPtr_assign_move False this tmp h1) (\<lambda>(this', tmp') h2.
         then_do (SharedPtr_dtor tmp' h2) (\<lambda>_ h3. Ok this' h3)))"

text \<open>
  \<^verbatim>\<open>EnableSharedFromThis::shared_from_this\<close> (lines 224-228), called on the object at \<open>p\<close>.
  It returns a \<^verbatim>\<open>SharedPtr<T>\<close> for the \<open>T\<close> of \<^verbatim>\<open>EnableSharedFromThis<T>\<close>, so the private
  constructor reached through \<^verbatim>\<open>lock\<close> takes its \<^verbatim>\<open>if constexpr\<close> branch.
\<close>

definition shared_from_this :: "addr \<Rightarrow> heap \<Rightarrow> SharedPtr result" where
  "shared_from_this p h =
     (case objs h p of
        None \<Rightarrow> Undefined Dangling
      | Some weak_this \<Rightarrow>
          then_do (expired weak_this h) (\<lambda>e h1.
            if e then Throw bad_weak_ptr h1 else lock True weak_this h1))"

section \<open>Programs over handles\<close>

text \<open>
  A client program is a sequence of operations on handle variables. The variables are
  kept in two lists, owning handles and non-owning handles, and named by their position;
  a constructor appends the handle it builds. A handle whose lifetime has ended stays in
  its list as the null handle its destructor leaves behind. An operation that names a
  variable that does not exist is not a program.
\<close>

datatype op =
    MakeShared "addr option" bool
  | FromRawPointer "addr option" "addr option"
  | SDefault
  | SCopy nat
  | SCopyConv "addr \<Rightarrow> addr" nat
  | SMove nat
  | SMoveConv "addr \<Rightarrow> addr" nat
  | SAssignCopy nat nat
  | SAssignMove nat nat
  | SReset nat
  | SDtor nat
  | SResetPointer nat "addr option" "addr option"
  | SSwap nat nat
  | WDefault
  | WFromShared nat
  | WFromSharedMoved nat
  | WCopy nat
  | WMove nat
  | WAssignCopy nat nat
  | WAssignShared nat nat
  | WAssignMove nat nat
  | WReset nat
  | WDtor nat
  | WSwap nat nat
  | WLock nat
  | SharedFromThis addr

type_synonym vars = "SharedPtr list \<times> WeakPtr list"

fun step :: "bool \<Rightarrow> op \<Rightarrow> vars \<Rightarrow> heap \<Rightarrow> vars result" where
  "step mx (MakeShared res ctor_ok) (sps, wps) h =
     then_do (makeShared mx res ctor_ok h) (\<lambda>s h1. Ok (sps @ [s], wps) h1)"
| "step mx (FromRawPointer p res) (sps, wps) h =
     then_do (SharedPtr_from_pointer mx p res h) (\<lambda>s h1. Ok (sps @ [s], wps) h1)"
| "step mx SDefault (sps, wps) h = Ok (sps @ [SharedPtr_default], wps) h"
| "step mx (SCopy i) (sps, wps) h =
     (if i < length sps
      then then_do (SharedPtr_copy (sps ! i) h) (\<lambda>s h1. Ok (sps @ [s], wps) h1)
      else Undefined NoSuchHandle)"
| "step mx (SCopyConv cast i) (sps, wps) h =
     (if i < length sps
      then then_do (SharedPtr_copy_conv cast (sps ! i) h) (\<lambda>s h1. Ok (sps @ [s], wps) h1)
      else Undefined NoSuchHandle)"
| "step mx (SMove i) (sps, wps) h =
     (if i < length sps
      then (let (s, other') = SharedPtr_move (sps ! i) in Ok (sps[i := other'] @ [s], wps) h)
      else Undefined NoSuchHandle)"
| "step mx (SMoveConv cast i) (sps, wps) h =
     (if i < length sps
      then (let (s, other') = SharedPtr_move_conv cast (sps ! i)
            in Ok (sps[i := other'] @ [s], wps) h)
      else Undefined NoSuchHandle)"
| "step mx (SAssignCopy i j) (sps, wps) h =
     (if i < length sps \<and> j < length sps
      then then_do (SharedPtr_assign_copy (i = j) (sps ! i) (sps ! j) h) (\<lambda>this' h1.
             Ok (sps[i := this'], wps) h1)
      else Undefined NoSuchHandle)"
| "step mx (SAssignMove i j) (sps, wps) h =
     (if i < length sps \<and> j < length sps
      then then_do (SharedPtr_assign_move (i = j) (sps ! i) (sps ! j) h) (\<lambda>(this', other') h1.
             Ok (sps[j := other', i := this'], wps) h1)
      else Undefined NoSuchHandle)"
| "step mx (SReset i) (sps, wps) h =
     (if i < length sps
      then then_do (SharedPtr_reset (sps ! i) h) (\<lambda>this' h1. Ok (sps[i := this'], wps) h1)
      else Undefined NoSuchHandle)"
| "step mx (SDtor i) (sps, wps) h =
     (if i < length sps
      then then_do (SharedPtr_dtor (sps ! i) h) (\<lambda>this' h1. Ok (sps[i := this'], wps) h1)
      else Undefined NoSuchHandle)"
| "step mx (SResetPointer i p res) (sps, wps) h =
     (if i < length sps
      then then_do (SharedPtr_reset_pointer mx (sps ! i) p res h) (\<lambda>this' h1.
             Ok (sps[i := this'], wps) h1)
      else Undefined NoSuchHandle)"
| "step mx (SSwap i j) (sps, wps) h =
     (if i < length sps \<and> j < length sps
      then (let (this', other') = SharedPtr_swap (sps ! i) (sps ! j)
            in Ok (sps[j := other', i := this'], wps) h)
      else Undefined NoSuchHandle)"
| "step mx WDefault (sps, wps) h = Ok (sps, wps @ [WeakPtr_default]) h"
| "step mx (WFromShared i) (sps, wps) h =
     (if i < length sps
      then then_do (SharedPtr_copy (sps ! i) h) (\<lambda>param h1.
             then_do (WeakPtr_from_shared param h1) (\<lambda>w h2. Ok (sps, wps @ [w]) h2))
      else Undefined NoSuchHandle)"
| "step mx (WFromSharedMoved i) (sps, wps) h =
     (if i < length sps
      then (let (param, other') = SharedPtr_move (sps ! i)
            in then_do (WeakPtr_from_shared param h) (\<lambda>w h1.
                 Ok (sps[i := other'], wps @ [w]) h1))
      else Undefined NoSuchHandle)"
| "step mx (WCopy i) (sps, wps) h =
     (if i < length wps
      then then_do (WeakPtr_copy (wps ! i) h) (\<lambda>w h1. Ok (sps, wps @ [w]) h1)
      else Undefined NoSuchHandle)"
| "step mx (WMove i) (sps, wps) h =
     (if i < length wps
      then (let (w, other') = WeakPtr_move (wps ! i) in Ok (sps, wps[i := other'] @ [w]) h)
      else Undefined NoSuchHandle)"
| "step mx (WAssignCopy i j) (sps, wps) h =
     (if i < length wps \<and> j < length wps
      then then_do (WeakPtr_assign_copy (i = j) (wps ! i) (wps ! j) h) (\<lambda>this' h1.
             Ok (sps, wps[i := this']) h1)
      else Undefined NoSuchHandle)"
| "step mx (WAssignShared i j) (sps, wps) h =
     (if i < length wps \<and> j < length sps
      then then_do (WeakPtr_assign_shared (wps ! i) (sps ! j) h) (\<lambda>this' h1.
             Ok (sps, wps[i := this']) h1)
      else Undefined NoSuchHandle)"
| "step mx (WAssignMove i j) (sps, wps) h =
     (if i < length wps \<and> j < length wps
      then then_do (WeakPtr_assign_move (i = j) (wps ! i) (wps ! j) h) (\<lambda>(this', other') h1.
             Ok (sps, wps[j := other', i := this']) h1)
      else Undefined NoSuchHandle)"
| "step mx (WReset i) (sps, wps) h =
     (if i < length wps
      then then_do (WeakPtr_reset (wps ! i) h) (\<lambda>this' h1. Ok (sps, wps[i := this']) h1)
      else Undefined NoSuchHandle)"
| "step mx (WDtor i) (sps, wps) h =
     (if i < length wps
      then then_do (WeakPtr_dtor (wps ! i) h) (\<lambda>this' h1. Ok (sps, wps[i := this']) h1)
      else Undefined NoSuchHandle)"
| "step mx (WSwap i j) (sps, wps) h =
     (if i < length wps \<and> j < length wps
      then (let (this', other') = WeakPtr_swap (wps ! i) (wps ! j)
            in Ok (sps, wps[j := other', i := this']) h)
      else Undefined NoSuchHandle)"
| "step mx (WLock i) (sps, wps) h =
     (if i < length wps
      then then_do (lock mx (wps ! i) h) (\<lambda>s h1. Ok (sps @ [s], wps) h1)
      else Undefined NoSuchHandle)"
| "step mx (SharedFromThis p) (sps, wps) h =
     then_do (shared_from_this p h) (\<lambda>s h1. Ok (sps @ [s], wps) h1)"

fun run :: "bool \<Rightarrow> op list \<Rightarrow> vars \<Rightarrow> heap \<Rightarrow> vars result" where
  "run mx [] vs h = Ok vs h"
| "run mx (x # xs) vs h = then_do (step mx x vs h) (\<lambda>vs1 h1. run mx xs vs1 h1)"

section \<open>Well-formed heaps\<close>

text \<open>A block that has been constructed at \<open>a\<close> and whose storage has not been given back.\<close>

definition live :: "heap \<Rightarrow> addr \<Rightarrow> block \<Rightarrow> bool" where
  "live h a blk \<longleftrightarrow> blocks h a = Some blk \<and> dealloc_calls blk = 0"

text \<open>The \<^verbatim>\<open>weak_this\<close> of the pointee embedded in the block at \<open>a\<close> is unbound or refers to
  that block; \<open>self_weak\<close> counts it when it is bound.\<close>

definition weak_this_ok :: "heap \<Rightarrow> addr \<Rightarrow> bool" where
  "weak_this_ok h a =
     (case objs h (obj_addr a) of
        None \<Rightarrow> True
      | Some w \<Rightarrow> wcontrol_block w = None \<or> wcontrol_block w = Some a)"

definition self_weak :: "heap \<Rightarrow> addr \<Rightarrow> block \<Rightarrow> nat" where
  "self_weak h a blk =
     (if variant blk = Embeded \<and> objs h (obj_addr a) = Some \<lparr>wcontrol_block = Some a\<rparr>
      then 1 else 0)"

text \<open>The heap after the last owning handle of the live block \<open>blk\<close> at \<open>a\<close> has been
  released while non-owning handles remain.\<close>

definition after_last :: "heap \<Rightarrow> addr \<Rightarrow> block \<Rightarrow> heap" where
  "after_last h a blk =
     h\<lparr>blocks := (blocks h)(a \<mapsto>
          blk\<lparr>shared_count := 0, weak_count := weak_count blk - of_nat (self_weak h a blk),
              destroyed_at := destroyed_at blk @ [1]\<rparr>),
       objs := (if variant blk = Embeded then (objs h)(obj_addr a := None) else objs h)\<rparr>"

text \<open>The empty heap, and small heaps used as concrete inputs.\<close>

definition heap0 :: heap where
  "heap0 = \<lparr>blocks = Map.empty, objs = Map.empty\<rparr>"

text \<open>One external-pointer block at address 100 for a pointee at address 7, held by one owning
  and one non-owning handle: the state after \<^verbatim>\<open>SharedPtr<T> p(raw); WeakPtr<T> w(p);\<close>.\<close>

definition ex_blk :: block where
  "ex_blk = \<lparr>shared_count = 1, weak_count = 1, variant = FromPointer (Some 7),
             destroyed_at = [], dealloc_calls = 0\<rparr>"

definition ex_heap :: heap where
  "ex_heap = \<lparr>blocks = [100 \<mapsto> ex_blk], objs = Map.empty\<rparr>"

definition ex_sp :: SharedPtr where
  "ex_sp = \<lparr>control_block = Some 100, pointer = Some 7\<rparr>"

definition ex_wp :: WeakPtr where
  "ex_wp = \<lparr>wcontrol_block = Some 100\<rparr>"

text \<open>A second external-pointer block, at address 200, with a single owning handle.\<close>

definition ex_blk2 :: block where
  "ex_blk2 = \<lparr>shared_count = 1, weak_count = 0, variant = FromPointer (Some 9),
              destroyed_at = [], dealloc_calls = 0\<rparr>"

definition ex_heap2 :: heap where
  "ex_heap2 = \<lparr>blocks = [100 \<mapsto> ex_blk, 200 \<mapsto> ex_blk2], objs = Map.empty\<rparr>"

definition ex_sp2 :: SharedPtr where
  "ex_sp2 = \<lparr>control_block = Some 200, pointer = Some 9\<rparr>"

text \<open>The heap after \<^verbatim>\<open>makeShared<T>()\<close> for a \<open>T\<close> with the \<^verbatim>\<open>EnableSharedFromThis\<close> base: one
  embedded block at 100, whose pointee at 124 has its \<^verbatim>\<open>weak_this\<close> bound to the block.\<close>

definition ex_mblk :: block where
  "ex_mblk = \<lparr>shared_count = 1, weak_count = 1, variant = Embeded,
              destroyed_at = [], dealloc_calls = 0\<rparr>"

definition ex_mheap :: heap where
  "ex_mheap = \<lparr>blocks = [100 \<mapsto> ex_mblk], objs = [124 \<mapsto> \<lparr>wcontrol_block = Some 100\<rparr>]\<rparr>"

definition ex_msp :: SharedPtr where
  "ex_msp = \<lparr>control_block = Some 100, pointer = Some 124\<rparr>"

section \<open>Invariants of programs\<close>

text \<open>An owning handle owns nothing, or has both a block and a pointer.\<close>

definition handle_ok :: "SharedPtr \<Rightarrow> bool" where
  "handle_ok s \<longleftrightarrow> (control_block s = None \<longleftrightarrow> pointer s = None)"

text \<open>No external-pointer block was built around a null \<^verbatim>\<open>pobj\<close>.\<close>

definition pointees_nonnull :: "heap \<Rightarrow> bool" where
  "pointees_nonnull h \<longleftrightarrow> (\<forall>a blk. blocks h a = Some blk \<longrightarrow> variant blk \<noteq> FromPointer None)"

text \<open>Which kind of block, if any, sits at each address.\<close>

definition shape :: "heap \<Rightarrow> addr \<Rightarrow> variant option" where
  "shape h a = map_option variant (blocks h a)"


text \<open>
  The lifetime invariant. \<open>owners\<close> and \<open>weaks\<close> count the handle variables of a program
  that refer to a block. For a block at \<open>a\<close> referred to by \<open>ns\<close> owning and \<open>nw\<close>
  non-owning handles, \<open>block_inv\<close> says: the storage has not been given back, the
  counters are these numbers (the pointee's own \<^verbatim>\<open>weak_this\<close> counted with the non-owning
  ones), some handle refers to the block, and the pointee has been destroyed once if no
  owning handle is left and not at all otherwise. With the mixin every block is an
  embedded one (the constructor from a raw pointer does not exist), a pointee that is
  owned has its \<^verbatim>\<open>weak_this\<close> bound to its block, and a pointee that is no longer owned is
  gone.
\<close>

definition owners :: "SharedPtr list \<Rightarrow> addr \<Rightarrow> nat" where
  "owners sps a = length (filter (\<lambda>s. control_block s = Some a) sps)"

definition weaks :: "WeakPtr list \<Rightarrow> addr \<Rightarrow> nat" where
  "weaks wps a = length (filter (\<lambda>w. wcontrol_block w = Some a) wps)"

definition block_inv :: "bool \<Rightarrow> heap \<Rightarrow> addr \<Rightarrow> block \<Rightarrow> nat \<Rightarrow> nat \<Rightarrow> bool" where
  "block_inv mx h a blk ns nw \<longleftrightarrow>
     dealloc_calls blk = 0 \<and>
     weak_this_ok h a \<and>
     (mx \<longrightarrow> variant blk = Embeded) \<and>
     unat (shared_count blk) = ns \<and>
     unat (weak_count blk) = nw + self_weak h a blk \<and>
     (0 < ns \<or> 0 < nw) \<and>
     length (destroyed_at blk) = (if ns = 0 then 1 else 0) \<and>
     (ns = 0 \<longrightarrow> self_weak h a blk = 0) \<and>
     (mx \<longrightarrow> objs h (obj_addr a) =
        (if 0 < ns then Some \<lparr>wcontrol_block = Some a\<rparr> else None))"

definition heap_inv :: "bool \<Rightarrow> heap \<Rightarrow> (addr \<Rightarrow> nat) \<Rightarrow> (addr \<Rightarrow> nat) \<Rightarrow> bool" where
  "heap_inv mx h ns nw \<longleftrightarrow>
     (\<forall>a. case blocks h a of
            None \<Rightarrow> ns a = 0 \<and> nw a = 0
          | Some blk \<Rightarrow> block_inv mx h a blk (ns a) (nw a))"

text \<open>One more, or one fewer, handle on the block a pointer designates.\<close>

definition acq :: "addr option \<Rightarrow> (addr \<Rightarrow> nat) \<Rightarrow> addr \<Rightarrow> nat" where
  "acq cb f = (case cb of None \<Rightarrow> f | Some a \<Rightarrow> f(a := f a + 1))"

definition rel :: "addr option \<Rightarrow> (addr \<Rightarrow> nat) \<Rightarrow> addr \<Rightarrow> nat" where
  "rel cb f = (case cb of None \<Rightarrow> f | Some a \<Rightarrow> f(a := f a - 1))"

text \<open>The operations on handles that exist already: everything but the factory, the
  constructor from a raw pointer, \<^verbatim>\<open>reset(p)\<close> and \<^verbatim>\<open>shared_from_this\<close>.\<close>

fun handle_op :: "op \<Rightarrow> bool" where
  "handle_op (MakeShared res ctor_ok) = False"
| "handle_op (FromRawPointer p res) = False"
| "handle_op (SResetPointer i p res) = False"
| "handle_op (SharedFromThis p) = False"
| "handle_op x = True"

text \<open>
  The operands of an operation exist and, where the source reads the control block
  without testing the pointer to it (the constructors of \<^verbatim>\<open>WeakPtr\<close> from a handle, lines
  354-378, and the assignments built on them), the handle read is not empty.
\<close>

fun operands_ok :: "vars \<Rightarrow> op \<Rightarrow> bool" where
  "operands_ok (sps, wps) (SCopy i) = (i < length sps)"
| "operands_ok (sps, wps) (SCopyConv cast i) = (i < length sps)"
| "operands_ok (sps, wps) (SMove i) = (i < length sps)"
| "operands_ok (sps, wps) (SMoveConv cast i) = (i < length sps)"
| "operands_ok (sps, wps) (SAssignCopy i j) = (i < length sps \<and> j < length sps)"
| "operands_ok (sps, wps) (SAssignMove i j) = (i < length sps \<and> j < length sps)"
| "operands_ok (sps, wps) (SReset i) = (i < length sps)"
| "operands_ok (sps, wps) (SDtor i) = (i < length sps)"
| "operands_ok (sps, wps) (SResetPointer i p res) = (i < length sps)"
| "operands_ok (sps, wps) (SSwap i j) = (i < length sps \<and> j < length sps)"
| "operands_ok (sps, wps) (WFromShared i) =
     (i < length sps \<and> control_block (sps ! i) \<noteq> None)"
| "operands_ok (sps, wps) (WFromSharedMoved i) =
     (i < length sps \<and> control_block (sps ! i) \<noteq> None)"
| "operands_ok (sps, wps) (WCopy i) = (i < length wps \<and> wcontrol_block (wps ! i) \<noteq> None)"
| "operands_ok (sps, wps) (WMove i) = (i < length wps)"
| "operands_ok (sps, wps) (WAssignCopy i j) =
     (i < length wps \<and> j < length wps \<and> (i = j \<or> wcontrol_block (wps ! j) \<noteq> None))"
| "operands_ok (sps, wps) (WAssignShared i j) =
     (i < length wps \<and> j < length sps \<and> control_block (sps ! j) \<noteq> None)"
| "operands_ok (sps, wps) (WAssignMove i j) = (i < length wps \<and> j < length wps)"
| "operands_ok (sps, wps) (WReset i) = (i < length wps)"
| "operands_ok (sps, wps) (WDtor i) = (i < length wps)"
| "operands_ok (sps, wps) (WSwap i j) = (i < length wps \<and> j < length wps)"
| "operands_ok (sps, wps) (WLock i) = (i < length wps)"
| "operands_ok (sps, wps) x = True"

text \<open>
  A handle is the only one, owning or not, that refers to its block; and the operations
  that give such a handle up: \<^verbatim>\<open>reset()\<close>, the destructor, and an assignment to it from
  another variable.
\<close>

definition sole :: "addr option \<Rightarrow> (addr \<Rightarrow> nat) \<Rightarrow> (addr \<Rightarrow> nat) \<Rightarrow> bool" where
  "sole cb ns nw = (case cb of None \<Rightarrow> False | Some a \<Rightarrow> ns a + nw a = 1)"

fun releases_last :: "vars \<Rightarrow> op \<Rightarrow> bool" where
  "releases_last (sps, wps) (SReset i) =
     sole (control_block (sps ! i)) (owners sps) (weaks wps)"
| "releases_last (sps, wps) (SDtor i) =
     sole (control_block (sps ! i)) (owners sps) (weaks wps)"
| "releases_last (sps, wps) (SAssignCopy i j) =
     (i \<noteq> j \<and> sole (control_block (sps ! i)) (owners sps) (weaks wps))"
| "releases_last (sps, wps) (SAssignMove i j) =
     (i \<noteq> j \<and> sole (control_block (sps ! i)) (owners sps) (weaks wps))"
| "releases_last (sps, wps) (WReset i) =
     sole (wcontrol_block (wps ! i)) (owners sps) (weaks wps)"
| "releases_last (sps, wps) (WDtor i) =
     sole (wcontrol_block (wps ! i)) (owners sps) (weaks wps)"
| "releases_last (sps, wps) (WAssignCopy i j) =
     (i \<noteq> j \<and> sole (wcontrol_block (wps ! i)) (owners sps) (weaks wps))"
| "releases_last (sps, wps) (WAssignShared i j) =
     sole (wcontrol_block (wps ! i)) (owners sps) (weaks wps)"
| "releases_last (sps, wps) (WAssignMove i j) =
     (i \<noteq> j \<and> sole (wcontrol_block (wps ! i)) (owners sps) (weaks wps))"
| "releases_last (sps, wps) x = False"

text \<open>
  What a step on existing handles does to a heap that satisfies the invariant. If its
  operands are not there, or it reads an empty handle where the source does not test for
  one, it stops on the null pointer or the missing variable. If it gives up the only
  handle of a block, it stops in the destructor of that block, which goes on in the
  storage it has given back. In every other case it returns, the invariant holds of the
  new heap and handles, and there is at most one handle more. It never throws.
\<close>

definition outcome_ok :: "bool \<Rightarrow> vars \<Rightarrow> op \<Rightarrow> vars result \<Rightarrow> bool" where
  "outcome_ok mx vs x r =
     (case r of
        Ok vs' h' \<Rightarrow>
          operands_ok vs x \<and> \<not> releases_last vs x \<and>
          heap_inv mx h' (owners (fst vs')) (weaks (snd vs')) \<and>
          length (fst vs') + length (snd vs') \<le> length (fst vs) + length (snd vs) + 1
      | Throw e h' \<Rightarrow> False
      | Undefined u \<Rightarrow>
          (if operands_ok vs x then releases_last vs x \<and> u = Dangling
           else u = NullDeref \<or> u = NoSuchHandle))"

text \<open>Between two heaps, no block disappears and no record of a destruction or of a
  deallocation is lost.\<close>

definition grows :: "heap \<Rightarrow> heap \<Rightarrow> bool" where
  "grows h h' \<longleftrightarrow>
     (\<forall>a blk. blocks h a = Some blk \<longrightarrow>
        (\<exists>blk'. blocks h' a = Some blk' \<and>
           length (destroyed_at blk) \<le> length (destroyed_at blk') \<and>
           dealloc_calls blk \<le> dealloc_calls blk'))"

section \<open>Basic facts\<close>

lemma then_do_simps [simp]:
  "then_do (Ok x h) f = f x h"
  "then_do (Throw e h) f = Throw e h"
  "then_do (Undefined u) f = Undefined u"
  by (simp_all add: then_do_def)

lemma put_simps [simp]:
  "blocks (put a blk h) = (blocks h)(a \<mapsto> blk)"
  "objs (put a blk h) = objs h"
  by (simp_all add: put_def)

lemma deref_live [simp]: "live h a blk \<Longrightarrow> deref (Some a) h = Ok (a, blk) h"
  by (simp add: live_def deref_def)

lemma live_put [simp]: "live (put a blk h) a blk' \<longleftrightarrow> blk' = blk \<and> dealloc_calls blk = 0"
  by (auto simp: live_def)

lemma unlink_shared_not_last:
  assumes "live h a blk" "1 < shared_count blk" "control_block sp = Some a"
  shows "unlink_shared_pointer_from_the_control_block sp h =
           Ok empty_SharedPtr (put a (blk\<lparr>shared_count := shared_count blk - 1\<rparr>) h)"
  using assms by (simp add: unlink_shared_pointer_from_the_control_block_def)

lemma destroy_block_live: "live h a blk \<Longrightarrow> destroy_block a h = Undefined Dangling"
  by (simp add: destroy_block_def live_def deref_def)

lemma unlink_shared_last:
  assumes "live h a blk" "shared_count blk = 1" "control_block sp = Some a" "weak_this_ok h a"
  shows "unlink_shared_pointer_from_the_control_block sp h =
           (if weak_count blk = of_nat (self_weak h a blk) then Undefined Dangling
            else Ok empty_SharedPtr (after_last h a blk))"
proof (cases blk)
  case (fields sc wc v d n)
  show ?thesis
  proof (cases h)
    case (fields bs os)
    show ?thesis
      using assms \<open>blk = _\<close> \<open>h = _\<close>
      by (cases v)
        (auto simp add: unlink_shared_pointer_from_the_control_block_def destroy_object_def
          after_last_def unlink_weak_pointer_from_the_control_block_def self_weak_def
          weak_this_ok_def Let_def destroy_block_def put_def live_def deref_def
          split: option.splits)
  qed
qed

lemma expired_live: "live h a blk \<Longrightarrow> wcontrol_block w = Some a \<Longrightarrow> expired w h = Ok (shared_count blk = 0) h"
  by (simp add: expired_def)

lemma expired_null: "wcontrol_block w = None \<Longrightarrow> expired w h = Ok True h"
  by (simp add: expired_def)

lemma expired_no_throw: "expired w h \<noteq> Throw e h'"
  by (auto simp: expired_def deref_def split: option.splits)

lemma live_after_last:
  "live h a blk \<Longrightarrow>
     live (after_last h a blk) a
       (blk\<lparr>shared_count := 0, weak_count := weak_count blk - of_nat (self_weak h a blk),
            destroyed_at := destroyed_at blk @ [1]\<rparr>)"
  by (simp add: live_def after_last_def)

lemma self_weak_le: "self_weak h a blk \<le> 1" by (simp add: self_weak_def)

lemma weak_ne_self:
  fixes wc :: size_t
  assumes "k < unat wc" "k \<le> 1" shows "wc \<noteq> of_nat k"
proof
  assume "wc = of_nat k"
  then have "unat wc = k" using assms(2) by (simp add: unat_of_nat)
  with assms(1) show False by simp
qed

text \<open>
  Claim C6. \<^verbatim>\<open>expired()\<close> answers true exactly when the handle holds no block or the
  block's \<open>shared_count\<close> is 0, and it never throws. Hence a non-owning handle attached
  to a live block reports false while an owning handle remains (also after an owning
  handle that is not the last one is dropped), and true right after the last owning
  handle is dropped, when the pointee has been destroyed once and the block, still
  referenced by the non-owning handle, has not been freed.
\<close>

theorem C6_expired:
  "(wcontrol_block w = None \<longrightarrow> expired w h = Ok True h) \<and>
   (\<forall>a blk. live h a blk \<and> wcontrol_block w = Some a \<longrightarrow>
       expired w h = Ok (shared_count blk = 0) h) \<and>
   (\<forall>e h'. expired w h \<noteq> Throw e h') \<and>
   (\<forall>a blk sp. live h a blk \<and> wcontrol_block w = Some a \<and> control_block sp = Some a \<and>
       weak_this_ok h a \<and> self_weak h a blk < unat (weak_count blk) \<and> shared_count blk = 1 \<longrightarrow>
       expired w h = Ok False h \<and>
       (\<exists>h' blk'. SharedPtr_dtor sp h = Ok empty_SharedPtr h' \<and> expired w h' = Ok True h' \<and>
          live h' a blk' \<and> length (destroyed_at blk') = length (destroyed_at blk) + 1)) \<and>
   (\<forall>a blk sp. live h a blk \<and> wcontrol_block w = Some a \<and> control_block sp = Some a \<and>
       1 < shared_count blk \<longrightarrow>
       expired w h = Ok False h \<and>
       (\<exists>h'. SharedPtr_dtor sp h = Ok empty_SharedPtr h' \<and> expired w h' = Ok False h'))"
proof (intro conjI allI impI)
  show "wcontrol_block w = None \<Longrightarrow> expired w h = Ok True h" by (rule expired_null)
next
  fix a blk assume "live h a blk \<and> wcontrol_block w = Some a"
  then show "expired w h = Ok (shared_count blk = 0) h" using expired_live by blast
next
  fix e h' show "expired w h \<noteq> Throw e h'" by (rule expired_no_throw)
next
  fix a blk and sp :: SharedPtr
  assume A: "live h a blk \<and> wcontrol_block w = Some a \<and> control_block sp = Some a \<and>
       weak_this_ok h a \<and> self_weak h a blk < unat (weak_count blk) \<and> shared_count blk = 1"
  then show "expired w h = Ok False h" using expired_live [of h a blk w] by simp
  let ?blk' = "blk\<lparr>shared_count := 0, weak_count := weak_count blk - of_nat (self_weak h a blk),
                 destroyed_at := destroyed_at blk @ [1]\<rparr>"
  from A have ne: "weak_count blk \<noteq> of_nat (self_weak h a blk)"
    using weak_ne_self self_weak_le by blast
  have L: "live (after_last h a blk) a ?blk'" using A by (simp add: live_after_last)
  have "SharedPtr_dtor sp h = Ok empty_SharedPtr (after_last h a blk)"
    using A ne unlink_shared_last [of h a blk sp] by (simp add: SharedPtr_dtor_def)
  moreover have "expired w (after_last h a blk) = Ok True (after_last h a blk)"
    using expired_live [OF L] A by simp
  moreover have "length (destroyed_at ?blk') = length (destroyed_at blk) + 1" by simp
  ultimately show "\<exists>h' blk'. SharedPtr_dtor sp h = Ok empty_SharedPtr h' \<and> expired w h' = Ok True h' \<and>
          live h' a blk' \<and> length (destroyed_at blk') = length (destroyed_at blk) + 1"
    using L by blast
next
  fix a blk and sp :: SharedPtr
  assume A: "live h a blk \<and> wcontrol_block w = Some a \<and> control_block sp = Some a \<and>
       1 < shared_count blk"
  then show "expired w h = Ok False h" using expired_live [of h a blk w] by auto
  let ?h' = "put a (blk\<lparr>shared_count := shared_count blk - 1\<rparr>) h"
  have "SharedPtr_dtor sp h = Ok empty_SharedPtr ?h'"
    using A by (simp add: SharedPtr_dtor_def unlink_shared_not_last)
  moreover have "live ?h' a (blk\<lparr>shared_count := shared_count blk - 1\<rparr>)"
    using A by (simp add: live_def)
  then have "expired w ?h' = Ok (shared_count blk - 1 = 0) ?h'"
    using expired_live A by fastforce
  moreover have "shared_count blk - 1 \<noteq> 0" using A by auto
  ultimately show "\<exists>h'. SharedPtr_dtor sp h = Ok empty_SharedPtr h' \<and> expired w h' = Ok False h'"
    by simp
qed

lemma ex_reached:
  "run False [FromRawPointer (Some 7) (Some 100), WFromShared 0] ([], []) heap0 = Ok ([ex_sp], [ex_wp]) ex_heap"
  by (simp add: heap0_def ex_heap_def ex_sp_def ex_wp_def ex_blk_def SharedPtr_from_pointer_def
     BaseControlBlock_def deref_def put_def SharedPtr_copy_def WeakPtr_from_shared_def SharedPtr_dtor_def
     unlink_shared_pointer_from_the_control_block_def Let_def empty_SharedPtr_def)

lemma ex_facts:
  "live ex_heap 100 ex_blk" "weak_this_ok ex_heap 100" "self_weak ex_heap 100 ex_blk = 0"
  "control_block ex_sp = Some 100" "wcontrol_block ex_wp = Some 100"
  "shared_count ex_blk = 1" "weak_count ex_blk = 1"
  by (simp_all add: live_def ex_heap_def ex_blk_def weak_this_ok_def self_weak_def ex_sp_def ex_wp_def)

theorem C6_expired_witness:
  "expired ex_wp ex_heap = Ok False ex_heap \<and>
   (\<exists>h' blk'. SharedPtr_dtor ex_sp ex_heap = Ok empty_SharedPtr h' \<and> expired ex_wp h' = Ok True h' \<and>
          live h' 100 blk' \<and> length (destroyed_at blk') = length (destroyed_at ex_blk) + 1)"
proof -
  have "live ex_heap 100 ex_blk \<and> wcontrol_block ex_wp = Some 100 \<and> control_block ex_sp = Some 100 \<and>
       weak_this_ok ex_heap 100 \<and> self_weak ex_heap 100 ex_blk < unat (weak_count ex_blk) \<and>
       shared_count ex_blk = 1"
    by (simp add: ex_facts)
  with C6_expired [of ex_wp ex_heap] show ?thesis by blast
qed

lemma word_ne0_cases: "(x::size_t) \<noteq> 0 \<Longrightarrow> x = 1 \<or> 1 < x"
proof -
  assume "x \<noteq> 0"
  then have "0 < unat x" by (simp add: unat_gt_0)
  then have "unat x = unat (1::size_t) \<or> unat (1::size_t) < unat x" by (simp only: unat_1) arith
  then show ?thesis by (simp only: word_unat_eq_iff [symmetric] word_less_nat_alt [symmetric])
qed

lemma SharedPtr_record_eta [simp]:
  "\<lparr>control_block = control_block (x::SharedPtr), pointer = pointer x\<rparr> = x"
  by (cases x) simp

lemma SharedPtr_nulled [simp]:
  "(x::SharedPtr)\<lparr>pointer := None, control_block := None\<rparr> = SharedPtr_default"
  by (cases x) (simp add: SharedPtr_default_def)

lemma SharedPtr_move_eq [simp]: "SharedPtr_move other = (other, SharedPtr_default)"
  by (simp add: SharedPtr_move_def)

lemma SharedPtr_move_conv_eq [simp]:
  "SharedPtr_move_conv cast other =
     (\<lparr>control_block = control_block other, pointer = map_option cast (pointer other)\<rparr>, SharedPtr_default)"
  by (simp add: SharedPtr_move_conv_def)

lemma SharedPtr_swap_eq [simp]: "SharedPtr_swap this other = (other, this)"
  by (cases this; cases other) (simp add: SharedPtr_swap_def)

lemma WeakPtr_swap_eq [simp]: "WeakPtr_swap this other = (other, this)"
  by (cases this; cases other) (simp add: WeakPtr_swap_def)

lemma WeakPtr_move_eq [simp]: "WeakPtr_move other = (other, WeakPtr_default)"
  by (cases other) (simp add: WeakPtr_move_def WeakPtr_default_def)

lemma empty_is_default [simp]: "empty_SharedPtr = SharedPtr_default" "empty_WeakPtr = WeakPtr_default"
  by (simp_all add: empty_SharedPtr_def SharedPtr_default_def empty_WeakPtr_def WeakPtr_default_def)

lemma default_fields [simp]:
  "control_block SharedPtr_default = None" "pointer SharedPtr_default = None"
  "wcontrol_block WeakPtr_default = None"
  by (simp_all add: SharedPtr_default_def WeakPtr_default_def)

lemma unlink_shared_null [simp]:
  "control_block sp = None \<Longrightarrow> unlink_shared_pointer_from_the_control_block sp h = Ok sp h"
  by (simp add: unlink_shared_pointer_from_the_control_block_def)

lemma unlink_weak_null [simp]:
  "wcontrol_block w = None \<Longrightarrow> unlink_weak_pointer_from_the_control_block w h = Ok w h"
  by (simp add: unlink_weak_pointer_from_the_control_block_def)

lemma blocks_after_last_other: "b \<noteq> a \<Longrightarrow> blocks (after_last h a blk) b = blocks h b"
  by (simp add: after_last_def)


lemma unlink_shared_frees:
  assumes "live h b blk" "shared_count blk = 1" "weak_this_ok h b" "control_block sp = Some b"
    "weak_count blk = of_nat (self_weak h b blk)"
  shows "unlink_shared_pointer_from_the_control_block sp h = Undefined Dangling"
  using assms unlink_shared_last [of h b blk sp] by simp

lemma SharedPtr_assign_move_eq:
  "SharedPtr_assign_move False this other h =
     then_do (SharedPtr_dtor this h) (\<lambda>_ h1. Ok (other, SharedPtr_default) h1)"
  by (simp add: SharedPtr_assign_move_def SharedPtr_assign_move_tmpl_def SharedPtr_dtor_def)


lemma ex2_facts:
  "live ex_heap2 200 ex_blk2" "weak_this_ok ex_heap2 200" "shared_count ex_blk2 = 1"
  "control_block ex_sp2 = Some 200" "blocks ex_heap2 100 = Some ex_blk"
  "live ex_heap2 100 ex_blk" "weak_this_ok ex_heap2 100" "blocks ex_heap2 200 = Some ex_blk2"
  "self_weak ex_heap2 100 ex_blk = 0" "self_weak ex_heap2 200 ex_blk2 = 0"
  "weak_count ex_blk2 = 0"
  by (simp_all add: live_def ex_heap2_def ex_blk2_def ex_blk_def weak_this_ok_def ex_sp2_def
      self_weak_def)


lemma makeShared_plain:
  "makeShared False (Some a) True h =
     Ok \<lparr>control_block = Some a, pointer = Some (obj_addr a)\<rparr>
        (put a ((BaseControlBlock Embeded)\<lparr>shared_count := 1\<rparr>) h)"
  by (cases h) (simp add: makeShared_def allocateShared_def SharedPtr_priv_def deref_def Let_def
       BaseControlBlock_def put_def)

lemma makeShared_mixin:
  "makeShared True (Some a) True h =
     Ok \<lparr>control_block = Some a, pointer = Some (obj_addr a)\<rparr>
        (h\<lparr>blocks := (blocks h)(a \<mapsto> (BaseControlBlock Embeded)\<lparr>shared_count := 1, weak_count := 1\<rparr>),
           objs := (objs h)(obj_addr a \<mapsto> \<lparr>wcontrol_block = Some a\<rparr>)\<rparr>)"
  by (cases h) (simp add: makeShared_def allocateShared_def SharedPtr_priv_def deref_def Let_def
       BaseControlBlock_def put_def WeakPtr_assign_shared_def SharedPtr_copy_def WeakPtr_from_shared_def
       SharedPtr_dtor_def unlink_shared_pointer_from_the_control_block_def WeakPtr_dtor_def)

lemma SharedPtr_from_pointer_plain:
  "SharedPtr_from_pointer False p (Some a) h =
     Ok \<lparr>control_block = Some a, pointer = p\<rparr>
        (put a ((BaseControlBlock (FromPointer p))\<lparr>shared_count := 1\<rparr>) h)"
  by (cases h) (simp add: SharedPtr_from_pointer_def deref_def Let_def BaseControlBlock_def put_def)

text \<open>
  Claim C3. For a pointee type without the mixin the constructor from a raw pointer
  creates an external-pointer block whose \<open>shared_count\<close> is 1 when it returns. For a
  type with the mixin the statement at lines 93-95 is ill-formed, so the constructor
  binds no self-handle, while the private constructor used by the factory (lines
  78-80) does bind it.
\<close>

theorem C3_raw_pointer_ctor:
  "SharedPtr_from_pointer False p (Some a) h =
     Ok \<lparr>control_block = Some a, pointer = p\<rparr>
        (put a \<lparr>shared_count = 1, weak_count = 0, variant = FromPointer p,
                destroyed_at = [], dealloc_calls = 0\<rparr> h) \<and>
   SharedPtr_from_pointer True p res h = Undefined IllFormed \<and>
   (\<exists>s h'. makeShared True (Some a) True h = Ok s h' \<and>
            objs h' (obj_addr a) = Some \<lparr>wcontrol_block = Some a\<rparr>)"
  by (simp add: SharedPtr_from_pointer_plain makeShared_mixin BaseControlBlock_def)
    (simp add: SharedPtr_from_pointer_def)

text \<open>
  Claim C7, as stated, fails: when the pointee's constructor throws inside
  \<^verbatim>\<open>allocateShared\<close>, the exception leaves the factory with the storage of the block still
  allocated, so the failed call has left something behind.
\<close>

theorem C7_counterexample:
  "allocateShared False (Some 100) False heap0 =
     Throw pointee_ctor_failed (put 100 (BaseControlBlock Embeded) heap0) \<and>
   blocks heap0 100 = None \<and>
   live (put 100 (BaseControlBlock Embeded) heap0) 100 (BaseControlBlock Embeded)"
  by (simp add: allocateShared_def heap0_def live_def BaseControlBlock_def)

text \<open>
  Claim C7, amended. When the allocator fails, in the factory, in the constructor from
  a raw pointer or in \<^verbatim>\<open>reset(p)\<close>, the exception propagates and the heap is the one
  before the call. When the pointee's constructor fails, the exception propagates as
  well and the heap differs from the one before the call only at the address the
  allocator has just returned, whose storage is not given back.
\<close>

theorem C7_allocation_failure:
  "allocateShared mx None ctor_ok h = Throw bad_alloc h \<and>
   makeShared mx None ctor_ok h = Throw bad_alloc h \<and>
   SharedPtr_from_pointer False p None h = Throw bad_alloc h \<and>
   SharedPtr_reset_pointer False this p None h = Throw bad_alloc h \<and>
   step mx (MakeShared None ctor_ok) (sps, wps) h = Throw bad_alloc h \<and>
   step False (FromRawPointer p None) (sps, wps) h = Throw bad_alloc h \<and>
   allocateShared mx (Some a) False h =
     Throw pointee_ctor_failed (h\<lparr>blocks := (blocks h)(a \<mapsto> BaseControlBlock Embeded)\<rparr>)"
  by (simp add: allocateShared_def makeShared_def SharedPtr_from_pointer_def
        SharedPtr_reset_pointer_def put_def)

lemma get_pointer_upd [simp]:
  "get_pointer a (blk\<lparr>shared_count := x\<rparr>) = get_pointer a blk"
  "get_pointer a (blk\<lparr>weak_count := y\<rparr>) = get_pointer a blk"
  by (simp_all add: get_pointer_def)

lemma SharedPtr_arrow_live:
  "live h a blk \<Longrightarrow> control_block sp = Some a \<Longrightarrow> SharedPtr_arrow sp h = Ok (get_pointer a blk) h"
  by (simp add: SharedPtr_arrow_def)

lemma SharedPtr_star_live:
  "live h a blk \<Longrightarrow> control_block sp = Some a \<Longrightarrow> get_pointer a blk = Some p \<Longrightarrow>
     SharedPtr_star sp h = Ok p h"
  by (simp add: SharedPtr_star_def)

lemma SharedPtr_copy_conv_live:
  "live h a blk \<Longrightarrow> control_block sp = Some a \<Longrightarrow>
     SharedPtr_copy_conv cast sp h =
       Ok \<lparr>control_block = Some a, pointer = map_option cast (pointer sp)\<rparr>
          (put a (blk\<lparr>shared_count := shared_count blk + 1\<rparr>) h)"
  by (simp add: SharedPtr_copy_conv_def)

lemma SharedPtr_copy_live:
  "live h a blk \<Longrightarrow> control_block sp = Some a \<Longrightarrow>
     SharedPtr_copy sp h = Ok sp (put a (blk\<lparr>shared_count := shared_count blk + 1\<rparr>) h)"
  by (simp add: SharedPtr_copy_def)

lemma SharedPtr_copy_null:
  "control_block sp = None \<Longrightarrow> SharedPtr_copy sp h = Ok sp h"
  by (simp add: SharedPtr_copy_def)

lemma live_dealloc: "live h a blk \<Longrightarrow> dealloc_calls blk = 0"
  by (simp add: live_def)

lemma differ_example:
  "SharedPtr_copy_conv (\<lambda>x. x + 8) \<lparr>control_block = Some 100, pointer = Some 124\<rparr>
       (put 100 ((BaseControlBlock Embeded)\<lparr>shared_count := 1\<rparr>) heap0) =
     Ok \<lparr>control_block = Some 100, pointer = Some 132\<rparr>
        (put 100 ((BaseControlBlock Embeded)\<lparr>shared_count := 2\<rparr>) heap0) \<and>
   SharedPtr_arrow \<lparr>control_block = Some 100, pointer = Some 132\<rparr>
        (put 100 ((BaseControlBlock Embeded)\<lparr>shared_count := 2\<rparr>) heap0) =
     Ok (Some 124) (put 100 ((BaseControlBlock Embeded)\<lparr>shared_count := 2\<rparr>) heap0)"
  by (simp add: SharedPtr_copy_conv_def SharedPtr_arrow_def deref_def heap0_def put_def
        BaseControlBlock_def get_pointer_def obj_addr_def obj_offset_def)

text \<open>
  Claim C10. On a handle that holds a live block, \<^verbatim>\<open>operator->\<close> and \<^verbatim>\<open>operator*\<close> give
  the address returned by the block's \<^verbatim>\<open>get_pointer()\<close>, and \<^verbatim>\<open>get()\<close> gives the stored
  pointer. A converting copy or move stores the cast pointer but dereferences through
  the same block, so the two addresses differ whenever the cast moves the address; the
  last conjunct exhibits such a handle.
\<close>

theorem C10_dereference_through_block:
  "(\<forall>a blk. live h a blk \<and> control_block sp = Some a \<longrightarrow>
      SharedPtr_arrow sp h = Ok (get_pointer a blk) h \<and>
      (\<forall>p. get_pointer a blk = Some p \<longrightarrow> SharedPtr_star sp h = Ok p h) \<and>
      (\<exists>s' h'. SharedPtr_copy_conv cast sp h = Ok s' h' \<and>
          SharedPtr_arrow s' h' = Ok (get_pointer a blk) h' \<and>
          get s' = map_option cast (pointer sp)) \<and>
      SharedPtr_arrow (fst (SharedPtr_move_conv cast sp)) h = Ok (get_pointer a blk) h \<and>
      get (fst (SharedPtr_move_conv cast sp)) = map_option cast (pointer sp)) \<and>
   get sp = pointer sp \<and>
   (\<exists>cast0 sp0 h0 s' h'. SharedPtr_copy_conv cast0 sp0 h0 = Ok s' h' \<and>
      SharedPtr_arrow s' h' \<noteq> Ok (get s') h')"
proof (intro conjI allI impI)
  fix a blk
  assume A: "live h a blk \<and> control_block sp = Some a"
  then show "SharedPtr_arrow sp h = Ok (get_pointer a blk) h"
    using SharedPtr_arrow_live [of h a blk sp] by simp
  show "SharedPtr_arrow (fst (SharedPtr_move_conv cast sp)) h = Ok (get_pointer a blk) h"
    using A SharedPtr_arrow_live [of h a blk "fst (SharedPtr_move_conv cast sp)"] by simp
  show "get (fst (SharedPtr_move_conv cast sp)) = map_option cast (pointer sp)"
    by (simp add: get_def)
  let ?s = "\<lparr>control_block = Some a, pointer = map_option cast (pointer sp)\<rparr>"
  let ?h = "put a (blk\<lparr>shared_count := shared_count blk + 1\<rparr>) h"
  have "live ?h a (blk\<lparr>shared_count := shared_count blk + 1\<rparr>)"
    using A live_dealloc [of h a blk] by simp
  then have "SharedPtr_arrow ?s ?h = Ok (get_pointer a blk) ?h"
    using SharedPtr_arrow_live [of ?h a _ ?s] by simp
  moreover have "SharedPtr_copy_conv cast sp h = Ok ?s ?h"
    using A SharedPtr_copy_conv_live [of h a blk sp cast] by simp
  moreover have "get ?s = map_option cast (pointer sp)" by (simp add: get_def)
  ultimately show "\<exists>s' h'. SharedPtr_copy_conv cast sp h = Ok s' h' \<and>
          SharedPtr_arrow s' h' = Ok (get_pointer a blk) h' \<and>
          get s' = map_option cast (pointer sp)"
    by blast
next
  fix a blk p
  assume "live h a blk \<and> control_block sp = Some a" "get_pointer a blk = Some p"
  then show "SharedPtr_star sp h = Ok p h" using SharedPtr_star_live [of h a blk sp p] by simp
next
  show "get sp = pointer sp" by (simp add: get_def)
next
  have "SharedPtr_arrow \<lparr>control_block = Some 100, pointer = Some 132\<rparr>
        (put 100 ((BaseControlBlock Embeded)\<lparr>shared_count := 2\<rparr>) heap0) \<noteq>
        Ok (get \<lparr>control_block = Some 100, pointer = Some 132\<rparr>)
         (put 100 ((BaseControlBlock Embeded)\<lparr>shared_count := 2\<rparr>) heap0)"
    using differ_example by (simp add: get_def)
  with differ_example show "\<exists>cast0 sp0 h0 s' h'. SharedPtr_copy_conv cast0 sp0 h0 = Ok s' h' \<and>
      SharedPtr_arrow s' h' \<noteq> Ok (get s') h'"
    by blast
qed

theorem C10_dereference_through_block_witness:
  "SharedPtr_arrow ex_sp ex_heap = Ok (Some 7) ex_heap \<and>
   SharedPtr_star ex_sp ex_heap = Ok 7 ex_heap \<and>
   (\<exists>s' h'. SharedPtr_copy_conv (\<lambda>x. x + 8) ex_sp ex_heap = Ok s' h' \<and>
       SharedPtr_arrow s' h' = Ok (Some 7) h' \<and> get s' = Some 15)"
proof -
  have A: "live ex_heap 100 ex_blk \<and> control_block ex_sp = Some 100" by (simp add: ex_facts)
  have B: "get_pointer 100 ex_blk = Some 7" "pointer ex_sp = Some 7"
    by (simp_all add: get_pointer_def ex_blk_def ex_sp_def)
  from C10_dereference_through_block [of ex_heap ex_sp "\<lambda>x. x + 8"] A B show ?thesis
    by fastforce
qed

lemma after_last_block:
  "blocks (after_last h a blk) a =
     Some (blk\<lparr>shared_count := 0,
               weak_count := weak_count blk - of_nat (self_weak h a blk),
               destroyed_at := destroyed_at blk @ [1]\<rparr>)"
  by (simp add: after_last_def)

lemma destroy_object_live:
  assumes "live h a blk" "weak_this_ok h a" "shared_count blk \<noteq> 0"
  shows "destroy_object a h =
     Ok () (h\<lparr>blocks := (blocks h)(a \<mapsto>
                blk\<lparr>weak_count := weak_count blk - of_nat (self_weak h a blk),
                    destroyed_at := destroyed_at blk @ [shared_count blk]\<rparr>),
             objs := (if variant blk = Embeded then (objs h)(obj_addr a := None) else objs h)\<rparr>)"
proof (cases blk)
  case (fields sc wc v d n)
  show ?thesis
  proof (cases h)
    case (fields bs os)
    show ?thesis
      using assms \<open>blk = _\<close> \<open>h = _\<close>
      by (cases v)
        (auto simp add: destroy_object_def
          unlink_weak_pointer_from_the_control_block_def self_weak_def
          weak_this_ok_def Let_def put_def live_def deref_def
          split: option.splits)
  qed
qed

lemma destroy_object_plain:
  assumes "live h a blk" "variant blk = FromPointer p \<or> objs h (obj_addr a) = None"
  shows "destroy_object a h =
           Ok () (put a (blk\<lparr>destroyed_at := destroyed_at blk @ [shared_count blk]\<rparr>) h)"
  using assms by (cases "variant blk") (auto simp: destroy_object_def Let_def)

text \<open>
  Claim C2, as stated, fails in its last sentence: the pointee is destroyed before
  \<open>shared_count\<close> is decremented. Releasing the only owning handle of the block at 100 runs
  \<^verbatim>\<open>destroy_object\<close> on the heap in which \<open>shared_count\<close> still reads 1 (the value the
  destructor observes, recorded in \<open>destroyed_at\<close>), and only then sets it to 0.
\<close>

theorem C2_counterexample:
  "destroy_object 100 ex_heap = Ok () (put 100 (ex_blk\<lparr>destroyed_at := [1]\<rparr>) ex_heap) \<and>
   shared_count (ex_blk\<lparr>destroyed_at := [1]\<rparr>) = 1 \<and>
   SharedPtr_reset ex_sp ex_heap =
     Ok SharedPtr_default (put 100 (ex_blk\<lparr>shared_count := 0, destroyed_at := [1]\<rparr>) ex_heap) \<and>
   destroyed_at (ex_blk\<lparr>shared_count := 0, destroyed_at := [1]\<rparr>) \<noteq> [0]"
  by (simp add: SharedPtr_reset_def unlink_shared_pointer_from_the_control_block_def
        destroy_object_def deref_def ex_heap_def ex_blk_def ex_sp_def put_def Let_def)

text \<open>
  Claim C2, as the code has it. Destroying or resetting an owning handle that holds a
  live block: when \<open>shared_count\<close> is greater than 1 it is decremented and nothing else
  changes. When it is 1 the pointee is destroyed first, while \<open>shared_count\<close> still
  reads 1, and then \<open>shared_count\<close> becomes 0. If \<open>weak_count\<close> (after the pointee's own
  \<^verbatim>\<open>weak_this\<close>, if any, has gone with the pointee) is not 0, the block survives with its
  pointee destroyed, its storage is not given back, no other block is touched, and the
  handle is left empty. If it is 0, the destructor of the block is run on the block with
  its pointee destroyed and its counters at 0; that destructor gives the storage back
  in its body and then goes on destroying the block in it, so the release is undefined.
\<close>

theorem C2_release:
  "(\<forall>a blk. live h a blk \<and> control_block sp = Some a \<and> 1 < shared_count blk \<longrightarrow>
      SharedPtr_dtor sp h =
        Ok SharedPtr_default (put a (blk\<lparr>shared_count := shared_count blk - 1\<rparr>) h) \<and>
      SharedPtr_reset sp h = SharedPtr_dtor sp h) \<and>
   (\<forall>a blk. live h a blk \<and> control_block sp = Some a \<and> shared_count blk = 1 \<and>
        weak_this_ok h a \<and> weak_count blk \<noteq> of_nat (self_weak h a blk) \<longrightarrow>
      (\<exists>h' blk'. SharedPtr_dtor sp h = Ok SharedPtr_default h' \<and>
          SharedPtr_reset sp h = Ok SharedPtr_default h' \<and>
          blocks h' a = Some blk' \<and>
          shared_count blk' = 0 \<and>
          destroyed_at blk' = destroyed_at blk @ [1] \<and>
          weak_count blk' = weak_count blk - of_nat (self_weak h a blk) \<and>
          dealloc_calls blk' = 0 \<and>
          variant blk' = variant blk \<and>
          (\<forall>b. b \<noteq> a \<longrightarrow> blocks h' b = blocks h b))) \<and>
   (\<forall>a blk. live h a blk \<and> control_block sp = Some a \<and> shared_count blk = 1 \<and>
        weak_this_ok h a \<and> weak_count blk = of_nat (self_weak h a blk) \<longrightarrow>
      (\<exists>h1 blk1. destroy_object a h = Ok () h1 \<and> live h1 a blk1 \<and>
          shared_count blk1 = 1 \<and> destroyed_at blk1 = destroyed_at blk @ [1] \<and>
          weak_count blk1 = 0 \<and>
          live (put a (blk1\<lparr>shared_count := 0\<rparr>) h1) a (blk1\<lparr>shared_count := 0\<rparr>) \<and>
          destroy_block a (put a (blk1\<lparr>shared_count := 0\<rparr>) h1) = Undefined Dangling) \<and>
      SharedPtr_dtor sp h = Undefined Dangling \<and>
      SharedPtr_reset sp h = Undefined Dangling)"
proof (intro conjI allI impI)
  fix a blk
  assume A: "live h a blk \<and> control_block sp = Some a \<and> 1 < shared_count blk"
  then show "SharedPtr_dtor sp h =
        Ok SharedPtr_default (put a (blk\<lparr>shared_count := shared_count blk - 1\<rparr>) h)"
    using unlink_shared_not_last [of h a blk sp] by (simp add: SharedPtr_dtor_def)
  show "SharedPtr_reset sp h = SharedPtr_dtor sp h"
    by (simp add: SharedPtr_dtor_def SharedPtr_reset_def)
next
  fix a blk
  assume A: "live h a blk \<and> control_block sp = Some a \<and> shared_count blk = 1 \<and>
        weak_this_ok h a \<and> weak_count blk \<noteq> of_nat (self_weak h a blk)"
  then have "unlink_shared_pointer_from_the_control_block sp h =
        Ok SharedPtr_default (after_last h a blk)"
    using unlink_shared_last [of h a blk sp] by simp
  moreover have "dealloc_calls blk = 0" using A by (simp add: live_def)
  ultimately show "\<exists>h' blk'. SharedPtr_dtor sp h = Ok SharedPtr_default h' \<and>
          SharedPtr_reset sp h = Ok SharedPtr_default h' \<and>
          blocks h' a = Some blk' \<and>
          shared_count blk' = 0 \<and>
          destroyed_at blk' = destroyed_at blk @ [1] \<and>
          weak_count blk' = weak_count blk - of_nat (self_weak h a blk) \<and>
          dealloc_calls blk' = 0 \<and>
          variant blk' = variant blk \<and>
          (\<forall>b. b \<noteq> a \<longrightarrow> blocks h' b = blocks h b)"
    by (simp add: SharedPtr_dtor_def SharedPtr_reset_def after_last_block blocks_after_last_other)
next
  fix a blk
  assume A: "live h a blk \<and> control_block sp = Some a \<and> shared_count blk = 1 \<and>
        weak_this_ok h a \<and> weak_count blk = of_nat (self_weak h a blk)"
  let ?blk1 = "blk\<lparr>weak_count := weak_count blk - of_nat (self_weak h a blk),
                    destroyed_at := destroyed_at blk @ [shared_count blk]\<rparr>"
  let ?h1 = "h\<lparr>blocks := (blocks h)(a \<mapsto> ?blk1),
             objs := (if variant blk = Embeded then (objs h)(obj_addr a := None) else objs h)\<rparr>"
  have D: "destroy_object a h = Ok () ?h1"
    using A destroy_object_live [of h a blk] by simp
  have L1: "live ?h1 a ?blk1" using A by (simp add: live_def)
  have L2: "live (put a (?blk1\<lparr>shared_count := 0\<rparr>) ?h1) a (?blk1\<lparr>shared_count := 0\<rparr>)"
    using A by (simp add: live_def)
  have "destroy_block a (put a (?blk1\<lparr>shared_count := 0\<rparr>) ?h1) = Undefined Dangling"
    using L2 by (rule destroy_block_live)
  with D L1 L2 A
  show "\<exists>h1 blk1. destroy_object a h = Ok () h1 \<and> live h1 a blk1 \<and>
          shared_count blk1 = 1 \<and> destroyed_at blk1 = destroyed_at blk @ [1] \<and>
          weak_count blk1 = 0 \<and>
          live (put a (blk1\<lparr>shared_count := 0\<rparr>) h1) a (blk1\<lparr>shared_count := 0\<rparr>) \<and>
          destroy_block a (put a (blk1\<lparr>shared_count := 0\<rparr>) h1) = Undefined Dangling"
    by (intro exI [of _ ?h1] exI [of _ ?blk1]) simp
  have U: "unlink_shared_pointer_from_the_control_block sp h = Undefined Dangling"
    using A unlink_shared_frees [of h a blk sp] by simp
  then show "SharedPtr_dtor sp h = Undefined Dangling" by (simp add: SharedPtr_dtor_def)
  from U show "SharedPtr_reset sp h = Undefined Dangling" by (simp add: SharedPtr_reset_def)
qed

text \<open>
  The three cases on heaps that programs reach: the last owning handle of a block that a
  non-owning handle still refers to, the only handle of a block, and one of two owning
  handles.
\<close>

theorem C2_release_witness:
  "(\<exists>h' blk'. SharedPtr_dtor ex_sp ex_heap = Ok SharedPtr_default h' \<and>
      blocks h' 100 = Some blk' \<and> shared_count blk' = 0 \<and> destroyed_at blk' = [1] \<and>
      weak_count blk' = 1 \<and> dealloc_calls blk' = 0) \<and>
   SharedPtr_dtor ex_sp2 ex_heap2 = Undefined Dangling \<and>
   SharedPtr_reset ex_sp2 ex_heap2 = Undefined Dangling \<and>
   SharedPtr_dtor ex_sp (put 100 (ex_blk\<lparr>shared_count := 2\<rparr>) ex_heap) =
     Ok SharedPtr_default (put 100 ex_blk ex_heap)"
proof -
  have D: "live (put 100 (ex_blk\<lparr>shared_count := 2\<rparr>) ex_heap) 100 (ex_blk\<lparr>shared_count := 2\<rparr>) \<and>
     control_block ex_sp = Some 100 \<and> 1 < shared_count (ex_blk\<lparr>shared_count := 2\<rparr>)"
    by (simp add: ex_facts ex_blk_def)
  have E: "ex_blk\<lparr>shared_count := 1\<rparr> = ex_blk" by (simp add: ex_blk_def)
  from C2_release [of "put 100 (ex_blk\<lparr>shared_count := 2\<rparr>) ex_heap" ex_sp] D
  have "SharedPtr_dtor ex_sp (put 100 (ex_blk\<lparr>shared_count := 2\<rparr>) ex_heap) =
     Ok SharedPtr_default
       (put 100 (ex_blk\<lparr>shared_count := 2,
           shared_count := shared_count (ex_blk\<lparr>shared_count := 2\<rparr>) - 1\<rparr>)
         (put 100 (ex_blk\<lparr>shared_count := 2\<rparr>) ex_heap))"
    by blast
  then have 3: "SharedPtr_dtor ex_sp (put 100 (ex_blk\<lparr>shared_count := 2\<rparr>) ex_heap) =
     Ok SharedPtr_default (put 100 ex_blk ex_heap)"
    by (simp add: E put_def)
  have C: "self_weak ex_heap 100 ex_blk = 0" "self_weak ex_heap2 200 ex_blk2 = 0"
    "destroyed_at ex_blk = []" "destroyed_at ex_blk2 = []" "weak_count ex_blk = 1"
    "weak_count ex_blk2 = 0"
    by (simp_all add: self_weak_def ex_blk_def ex_blk2_def)
  have A: "live ex_heap 100 ex_blk \<and> control_block ex_sp = Some 100 \<and> shared_count ex_blk = 1 \<and>
        weak_this_ok ex_heap 100 \<and> weak_count ex_blk \<noteq> of_nat (self_weak ex_heap 100 ex_blk)"
    by (simp add: ex_facts C)
  have B: "live ex_heap2 200 ex_blk2 \<and> control_block ex_sp2 = Some 200 \<and> shared_count ex_blk2 = 1 \<and>
        weak_this_ok ex_heap2 200 \<and> weak_count ex_blk2 = of_nat (self_weak ex_heap2 200 ex_blk2)"
    by (simp add: ex2_facts C)
  from C2_release [of ex_heap ex_sp] A obtain h1 blk1 where
    1: "SharedPtr_dtor ex_sp ex_heap = Ok SharedPtr_default h1 \<and>
          blocks h1 100 = Some blk1 \<and> shared_count blk1 = 0 \<and>
          destroyed_at blk1 = destroyed_at ex_blk @ [1] \<and>
          weak_count blk1 = weak_count ex_blk - of_nat (self_weak ex_heap 100 ex_blk) \<and>
          dealloc_calls blk1 = 0"
    by blast
  from C2_release [of ex_heap2 ex_sp2] B
  have 2: "SharedPtr_dtor ex_sp2 ex_heap2 = Undefined Dangling \<and>
      SharedPtr_reset ex_sp2 ex_heap2 = Undefined Dangling"
    by blast
  from 1 C have "SharedPtr_dtor ex_sp ex_heap = Ok SharedPtr_default h1 \<and>
      blocks h1 100 = Some blk1 \<and> shared_count blk1 = 0 \<and> destroyed_at blk1 = [1] \<and>
      weak_count blk1 = 1 \<and> dealloc_calls blk1 = 0"
    by simp
  with 2 3 show ?thesis by blast
qed

lemma unat_inc:
  fixes x :: size_t
  assumes "unat x + 1 < 2 ^ 64"
  shows "unat (x + 1) = unat x + 1"
proof -
  have "unat x + unat (1::size_t) < 2 ^ LENGTH(64)" using assms by simp
  then have "unat (x + 1) = unat x + unat (1::size_t)" by (simp only: unat_add_lem)
  then show ?thesis by simp
qed

lemma inc_ne0:
  fixes x :: size_t
  assumes "unat x + 1 < 2 ^ 64"
  shows "x + 1 \<noteq> 0"
proof
  assume "x + 1 = 0"
  then have "unat (x + 1) = 0" by simp
  with unat_inc [OF assms] show False by simp
qed

lemma inc2_gt1:
  fixes x :: size_t
  assumes "unat x + 2 < 2 ^ 64"
  shows "1 < x + 2"
proof -
  have a: "unat x + 1 < 2 ^ 64" using assms by simp
  have "unat (x + 1) + 1 < 2 ^ 64" using assms unat_inc [OF a] by simp
  from unat_inc [OF this] unat_inc [OF a] have "unat (x + 1 + 1) = unat x + 2" by simp
  moreover have "x + 1 + 1 = x + 2" by simp
  ultimately have "unat (x + 2) = unat x + 2" by simp
  then show ?thesis by (simp add: word_less_nat_alt)
qed

lemma SharedPtr_priv_plain:
  "live h a blk \<Longrightarrow>
     SharedPtr_priv False ptr (Some a) h =
       Ok \<lparr>control_block = Some a, pointer = ptr\<rparr>
          (put a (blk\<lparr>shared_count := shared_count blk + 1\<rparr>) h)"
  by (simp add: SharedPtr_priv_def)

lemma SharedPtr_priv_mixin:
  assumes "live h a blk" "objs h p = Some wt"
    "wcontrol_block wt = None \<or> wcontrol_block wt = Some a"
    "unat (shared_count blk) + 2 < 2 ^ 64"
  shows "SharedPtr_priv True (Some p) (Some a) h =
       Ok \<lparr>control_block = Some a, pointer = Some p\<rparr>
          (h\<lparr>blocks := (blocks h)(a \<mapsto>
                blk\<lparr>shared_count := shared_count blk + 1,
                    weak_count := (if wcontrol_block wt = None then weak_count blk + 1
                                   else weak_count blk)\<rparr>),
             objs := (objs h)(p \<mapsto> \<lparr>wcontrol_block = Some a\<rparr>)\<rparr>)"
proof (cases blk)
  case (fields sc wc v ds n)
  have w1: "1 < sc + 2" using assms(4) inc2_gt1 [of "shared_count blk"] fields by simp
  then have w1': "1 < 2 + sc" by (simp add: add.commute)
  have w2: "sc + 1 \<noteq> 0" using assms(4) inc_ne0 [of "shared_count blk"] fields by simp
  then have w2': "1 + sc \<noteq> 0" by (simp add: add.commute)
  have d: "n = 0" using assms(1) fields by (simp add: live_def)
  show ?thesis
  proof (cases h)
    case (fields bs os)
    show ?thesis
      using assms(1,2,3) w1 w1' w2 w2' d \<open>blk = _\<close> \<open>h = _\<close>
      by (auto simp add: SharedPtr_priv_def WeakPtr_assign_shared_def SharedPtr_copy_def
          WeakPtr_from_shared_def SharedPtr_dtor_def WeakPtr_dtor_def Let_def
          unlink_shared_pointer_from_the_control_block_def
          unlink_weak_pointer_from_the_control_block_def deref_def put_def live_def
          add.commute)
  qed
qed


lemma then_do_Throw:
  "then_do r f = Throw e h' \<longleftrightarrow>
     r = Throw e h' \<or> (\<exists>x h1. r = Ok x h1 \<and> f x h1 = Throw e h')"
  by (cases r) auto

lemma deref_no_throw [simp]: "deref cb h \<noteq> Throw e h'"
  by (auto simp: deref_def split: option.splits)

lemma destroy_block_no_throw [simp]: "destroy_block a h \<noteq> Throw e h'"
  by (auto simp: destroy_block_def then_do_Throw Let_def)

lemma unlink_weak_no_throw [simp]:
  "unlink_weak_pointer_from_the_control_block w h \<noteq> Throw e h'"
  by (auto simp: unlink_weak_pointer_from_the_control_block_def then_do_Throw Let_def
      split: option.splits)

lemma destroy_object_no_throw [simp]: "destroy_object a h \<noteq> Throw e h'"
  by (auto simp: destroy_object_def then_do_Throw Let_def split: option.splits variant.splits)

lemma unlink_shared_no_throw [simp]:
  "unlink_shared_pointer_from_the_control_block sp h \<noteq> Throw e h'"
  by (auto simp: unlink_shared_pointer_from_the_control_block_def then_do_Throw Let_def
      split: option.splits)

lemma SharedPtr_copy_no_throw [simp]:
  "SharedPtr_copy sp h \<noteq> Throw e h'" "SharedPtr_copy_conv cast sp h \<noteq> Throw e h'"
  by (auto simp: SharedPtr_copy_def SharedPtr_copy_conv_def then_do_Throw Let_def
      split: option.splits)

lemma SharedPtr_dtor_no_throw [simp]:
  "SharedPtr_dtor sp h \<noteq> Throw e h'" "SharedPtr_reset sp h \<noteq> Throw e h'"
  by (simp_all add: SharedPtr_dtor_def SharedPtr_reset_def)

lemma SharedPtr_assign_no_throw [simp]:
  "SharedPtr_assign_copy same this other h \<noteq> Throw e h'"
  "SharedPtr_assign_move same this other h \<noteq> Throw e h'"
  by (auto simp: SharedPtr_assign_copy_def SharedPtr_assign_copy_tmpl_def
      SharedPtr_assign_move_def SharedPtr_assign_move_tmpl_def then_do_Throw)

lemma WeakPtr_dtor_no_throw [simp]:
  "WeakPtr_dtor w h \<noteq> Throw e h'" "WeakPtr_reset w h \<noteq> Throw e h'"
  by (simp_all add: WeakPtr_dtor_def WeakPtr_reset_def)

lemma WeakPtr_ctor_no_throw [simp]:
  "WeakPtr_from_shared sp h \<noteq> Throw e h'" "WeakPtr_copy w h \<noteq> Throw e h'"
  by (auto simp: WeakPtr_from_shared_def WeakPtr_copy_def then_do_Throw Let_def)

lemma WeakPtr_assign_no_throw [simp]:
  "WeakPtr_assign_copy same this w h \<noteq> Throw e h'"
  "WeakPtr_assign_move same this w h \<noteq> Throw e h'"
  "WeakPtr_assign_shared this sp h \<noteq> Throw e h'"
  by (auto simp: WeakPtr_assign_copy_def WeakPtr_assign_copy_tmpl_def
      WeakPtr_assign_move_def WeakPtr_assign_move_tmpl_def WeakPtr_assign_shared_def
      then_do_Throw)

lemma expired_no_throw' [simp]: "expired w h \<noteq> Throw e h'"
  by (rule expired_no_throw)

lemma SharedPtr_priv_no_throw [simp]: "SharedPtr_priv mx ptr cb h \<noteq> Throw e h'"
  by (auto simp: SharedPtr_priv_def then_do_Throw Let_def split: option.splits)

lemma lock_no_throw [simp]: "lock mx w h \<noteq> Throw e h'"
  by (auto simp: lock_def then_do_Throw)

lemma factory_no_bad_weak_ptr [simp]:
  "allocateShared mx res ctor_ok h \<noteq> Throw bad_weak_ptr h'"
  "makeShared mx res ctor_ok h \<noteq> Throw bad_weak_ptr h'"
  "SharedPtr_from_pointer mx p res h \<noteq> Throw bad_weak_ptr h'"
  "SharedPtr_reset_pointer mx this p res h \<noteq> Throw bad_weak_ptr h'"
  by (auto simp: allocateShared_def makeShared_def SharedPtr_from_pointer_def
      SharedPtr_reset_pointer_def then_do_Throw Let_def split: option.splits if_splits)


lemma lock_live:
  "live h a blk \<Longrightarrow> wcontrol_block w = Some a \<Longrightarrow> shared_count blk \<noteq> 0 \<Longrightarrow>
     lock mx w h = SharedPtr_priv mx (get_pointer a blk) (Some a) h"
  by (simp add: lock_def expired_def)

lemma lock_expired: "expired w h = Ok True h \<Longrightarrow> lock mx w h = Ok SharedPtr_default h"
  by (simp add: lock_def)

lemma use_count_live:
  "live h a blk \<Longrightarrow> control_block sp = Some a \<Longrightarrow> use_count sp h = Ok (shared_count blk) h"
  by (simp add: use_count_def)

lemma WeakPtr_use_count_live:
  "live h a blk \<Longrightarrow> wcontrol_block w = Some a \<Longrightarrow>
     WeakPtr_use_count w h = Ok (shared_count blk) h"
  by (simp add: WeakPtr_use_count_def)

lemma lock_spec:
  assumes "live h a blk" "wcontrol_block w = Some a" "shared_count blk \<noteq> 0"
    "unat (shared_count blk) + 2 < 2 ^ 64"
    "mx \<longrightarrow> (\<exists>p wt. get_pointer a blk = Some p \<and> objs h p = Some wt \<and>
                  (wcontrol_block wt = None \<or> wcontrol_block wt = Some a))"
  shows "\<exists>h' blk'. lock mx w h = Ok \<lparr>control_block = Some a, pointer = get_pointer a blk\<rparr> h' \<and>
           live h' a blk' \<and> shared_count blk' = shared_count blk + 1 \<and>
           variant blk' = variant blk \<and> destroyed_at blk' = destroyed_at blk \<and>
           (\<forall>b. b \<noteq> a \<longrightarrow> blocks h' b = blocks h b)"
proof (cases mx)
  case False
  have d: "dealloc_calls blk = 0" using assms(1) by (simp add: live_def)
  let ?h = "put a (blk\<lparr>shared_count := shared_count blk + 1\<rparr>) h"
  have "lock mx w h = Ok \<lparr>control_block = Some a, pointer = get_pointer a blk\<rparr> ?h"
    using False assms lock_live [of h a blk w mx] SharedPtr_priv_plain [of h a blk] by simp
  moreover have "live ?h a (blk\<lparr>shared_count := shared_count blk + 1\<rparr>)" using d by simp
  ultimately show ?thesis by fastforce
next
  case True
  with assms(5) obtain p wt where P: "get_pointer a blk = Some p" "objs h p = Some wt"
    "wcontrol_block wt = None \<or> wcontrol_block wt = Some a" by blast
  have d: "dealloc_calls blk = 0" using assms(1) by (simp add: live_def)
  let ?blk = "blk\<lparr>shared_count := shared_count blk + 1,
                    weak_count := (if wcontrol_block wt = None then weak_count blk + 1
                                   else weak_count blk)\<rparr>"
  let ?h = "h\<lparr>blocks := (blocks h)(a \<mapsto> ?blk),
             objs := (objs h)(p \<mapsto> \<lparr>wcontrol_block = Some a\<rparr>)\<rparr>"
  have "lock mx w h = Ok \<lparr>control_block = Some a, pointer = get_pointer a blk\<rparr> ?h"
    using True assms(1-4) P lock_live [of h a blk w mx] SharedPtr_priv_mixin [of h a blk p wt]
    by simp
  moreover have "live ?h a ?blk" using d by (simp add: live_def)
  ultimately show ?thesis by fastforce
qed


lemma ex_m_facts:
  "live ex_mheap 100 ex_mblk" "get_pointer 100 ex_mblk = Some 124"
  "objs ex_mheap 124 = Some \<lparr>wcontrol_block = Some 100\<rparr>"
  "shared_count ex_mblk = 1" "control_block ex_msp = Some 100"
  by (simp_all add: live_def ex_mheap_def ex_mblk_def get_pointer_def obj_addr_def
      obj_offset_def ex_msp_def)

text \<open>
  Claim C5. \<^verbatim>\<open>lock()\<close> on a non-owning handle whose live block has a non-zero
  \<open>shared_count\<close> returns an owning handle on the same block, with the pointer the block
  reports, and leaves \<open>shared_count\<close> exactly one greater (the counter is short of its
  maximum; with the mixin the pointee's \<^verbatim>\<open>weak_this\<close> is unbound or bound to this
  block); no other block changes. On an empty handle, or on one whose block has
  \<open>shared_count\<close> 0, it returns a default handle and the heap is unchanged.
\<close>

theorem C5_lock:
  "(\<forall>a blk. live h a blk \<and> wcontrol_block w = Some a \<and> shared_count blk \<noteq> 0 \<and>
        unat (shared_count blk) + 2 < 2 ^ 64 \<and>
        (mx \<longrightarrow> (\<exists>p wt. get_pointer a blk = Some p \<and> objs h p = Some wt \<and>
                  (wcontrol_block wt = None \<or> wcontrol_block wt = Some a))) \<longrightarrow>
      WeakPtr_use_count w h = Ok (shared_count blk) h \<and>
      (\<exists>h'. lock mx w h = Ok \<lparr>control_block = Some a, pointer = get_pointer a blk\<rparr> h' \<and>
          use_count \<lparr>control_block = Some a, pointer = get_pointer a blk\<rparr> h' =
            Ok (shared_count blk + 1) h' \<and>
          WeakPtr_use_count w h' = Ok (shared_count blk + 1) h' \<and>
          unat (shared_count blk + 1) = unat (shared_count blk) + 1 \<and>
          (\<forall>b. b \<noteq> a \<longrightarrow> blocks h' b = blocks h b))) \<and>
   (wcontrol_block w = None \<longrightarrow> lock mx w h = Ok SharedPtr_default h) \<and>
   (\<forall>a blk. live h a blk \<and> wcontrol_block w = Some a \<and> shared_count blk = 0 \<longrightarrow>
      lock mx w h = Ok SharedPtr_default h)"
proof (intro conjI allI impI)
  fix a blk
  assume A: "live h a blk \<and> wcontrol_block w = Some a \<and> shared_count blk \<noteq> 0 \<and>
        unat (shared_count blk) + 2 < 2 ^ 64 \<and>
        (mx \<longrightarrow> (\<exists>p wt. get_pointer a blk = Some p \<and> objs h p = Some wt \<and>
                  (wcontrol_block wt = None \<or> wcontrol_block wt = Some a)))"
  then show "WeakPtr_use_count w h = Ok (shared_count blk) h"
    using WeakPtr_use_count_live [of h a blk w] by simp
  let ?s = "\<lparr>control_block = Some a, pointer = get_pointer a blk\<rparr>"
  from A lock_spec [of h a blk w mx] obtain h' blk' where
    L: "lock mx w h = Ok ?s h'" "live h' a blk'" "shared_count blk' = shared_count blk + 1"
      "\<forall>b. b \<noteq> a \<longrightarrow> blocks h' b = blocks h b"
    by blast
  have "use_count ?s h' = Ok (shared_count blk + 1) h'"
    using L use_count_live [of h' a blk' ?s] by simp
  moreover have "WeakPtr_use_count w h' = Ok (shared_count blk + 1) h'"
    using L A WeakPtr_use_count_live [of h' a blk' w] by simp
  moreover have "unat (shared_count blk + 1) = unat (shared_count blk) + 1"
    using A by (intro unat_inc) simp
  ultimately show "\<exists>h'. lock mx w h = Ok ?s h' \<and>
          use_count ?s h' = Ok (shared_count blk + 1) h' \<and>
          WeakPtr_use_count w h' = Ok (shared_count blk + 1) h' \<and>
          unat (shared_count blk + 1) = unat (shared_count blk) + 1 \<and>
          (\<forall>b. b \<noteq> a \<longrightarrow> blocks h' b = blocks h b)"
    using L by blast
next
  assume "wcontrol_block w = None"
  then show "lock mx w h = Ok SharedPtr_default h"
    by (simp add: lock_expired expired_null)
next
  fix a blk
  assume "live h a blk \<and> wcontrol_block w = Some a \<and> shared_count blk = 0"
  then have "expired w h = Ok True h" using expired_live [of h a blk w] by simp
  then show "lock mx w h = Ok SharedPtr_default h" by (rule lock_expired)
qed

theorem C5_lock_witness:
  "(\<exists>h'. lock False ex_wp ex_heap = Ok ex_sp h' \<and> use_count ex_sp h' = Ok 2 h' \<and>
       blocks h' 200 = blocks ex_heap 200) \<and>
   WeakPtr_use_count ex_wp ex_heap = Ok 1 ex_heap \<and>
   (\<exists>h'. lock True ex_wp ex_mheap = Ok ex_msp h' \<and> use_count ex_msp h' = Ok 2 h') \<and>
   lock False WeakPtr_default ex_heap = Ok SharedPtr_default ex_heap \<and>
   lock False ex_wp (put 100 (ex_blk\<lparr>shared_count := 0\<rparr>) ex_heap) =
     Ok SharedPtr_default (put 100 (ex_blk\<lparr>shared_count := 0\<rparr>) ex_heap)"
proof -
  have A: "live ex_heap 100 ex_blk \<and> wcontrol_block ex_wp = Some 100 \<and> shared_count ex_blk \<noteq> 0 \<and>
        unat (shared_count ex_blk) + 2 < 2 ^ 64 \<and>
        (False \<longrightarrow> (\<exists>p wt. get_pointer 100 ex_blk = Some p \<and> objs ex_heap p = Some wt \<and>
                  (wcontrol_block wt = None \<or> wcontrol_block wt = Some 100)))"
    by (simp add: ex_facts)
  have B: "live ex_mheap 100 ex_mblk \<and> wcontrol_block ex_wp = Some 100 \<and>
        shared_count ex_mblk \<noteq> 0 \<and> unat (shared_count ex_mblk) + 2 < 2 ^ 64 \<and>
        (True \<longrightarrow> (\<exists>p wt. get_pointer 100 ex_mblk = Some p \<and> objs ex_mheap p = Some wt \<and>
                  (wcontrol_block wt = None \<or> wcontrol_block wt = Some 100)))"
    by (simp add: ex_facts ex_m_facts)
  have C: "live (put 100 (ex_blk\<lparr>shared_count := 0\<rparr>) ex_heap) 100 (ex_blk\<lparr>shared_count := 0\<rparr>) \<and>
       wcontrol_block ex_wp = Some 100 \<and> shared_count (ex_blk\<lparr>shared_count := 0\<rparr>) = 0"
    by (simp add: ex_facts ex_blk_def)
  have E: "\<lparr>control_block = Some 100, pointer = get_pointer 100 ex_blk\<rparr> = ex_sp"
    "\<lparr>control_block = Some 100, pointer = get_pointer 100 ex_mblk\<rparr> = ex_msp"
    by (simp_all add: ex_sp_def ex_msp_def ex_m_facts) (simp add: get_pointer_def ex_blk_def)
  from C5_lock [of ex_heap ex_wp False] A have
    1: "WeakPtr_use_count ex_wp ex_heap = Ok (shared_count ex_blk) ex_heap \<and>
      (\<exists>h'. lock False ex_wp ex_heap = Ok \<lparr>control_block = Some 100, pointer = get_pointer 100 ex_blk\<rparr> h' \<and>
          use_count \<lparr>control_block = Some 100, pointer = get_pointer 100 ex_blk\<rparr> h' =
            Ok (shared_count ex_blk + 1) h' \<and>
          WeakPtr_use_count ex_wp h' = Ok (shared_count ex_blk + 1) h' \<and>
          unat (shared_count ex_blk + 1) = unat (shared_count ex_blk) + 1 \<and>
          (\<forall>b. b \<noteq> 100 \<longrightarrow> blocks h' b = blocks ex_heap b))"
    by blast
  from C5_lock [of ex_mheap ex_wp True] B have
    2: "(\<exists>h'. lock True ex_wp ex_mheap = Ok \<lparr>control_block = Some 100, pointer = get_pointer 100 ex_mblk\<rparr> h' \<and>
          use_count \<lparr>control_block = Some 100, pointer = get_pointer 100 ex_mblk\<rparr> h' =
            Ok (shared_count ex_mblk + 1) h')"
    by blast
  from C5_lock [of ex_heap WeakPtr_default False]
  have 3: "lock False WeakPtr_default ex_heap = Ok SharedPtr_default ex_heap" by simp
  from C5_lock [of "put 100 (ex_blk\<lparr>shared_count := 0\<rparr>) ex_heap" ex_wp False] C
  have 4: "lock False ex_wp (put 100 (ex_blk\<lparr>shared_count := 0\<rparr>) ex_heap) =
     Ok SharedPtr_default (put 100 (ex_blk\<lparr>shared_count := 0\<rparr>) ex_heap)"
    by blast
  from 1 have r1: "(\<exists>h'. lock False ex_wp ex_heap = Ok ex_sp h' \<and> use_count ex_sp h' = Ok 2 h' \<and>
       blocks h' 200 = blocks ex_heap 200) \<and>
     WeakPtr_use_count ex_wp ex_heap = Ok 1 ex_heap"
    unfolding E by (auto simp: ex_facts)
  from 2 have r2: "\<exists>h'. lock True ex_wp ex_mheap = Ok ex_msp h' \<and> use_count ex_msp h' = Ok 2 h'"
    unfolding E by (auto simp: ex_m_facts)
  from r1 r2 3 4 show ?thesis by blast
qed



lemma then_do_Ok:
  "then_do r f = Ok y h' \<longleftrightarrow> (\<exists>x h1. r = Ok x h1 \<and> f x h1 = Ok y h')"
  by (cases r) auto

lemma deref_Ok: "deref cb h = Ok x h' \<longleftrightarrow> cb = Some (fst x) \<and> live h (fst x) (snd x) \<and> h' = h"
  by (cases x) (auto simp: deref_def live_def split: option.splits)

lemma shape_put:
  "blocks h a = Some blk \<Longrightarrow> variant blk' = variant blk \<Longrightarrow> shape (put a blk' h) = shape h"
  by (auto simp: shape_def fun_eq_iff)

lemma shape_objs [simp]: "shape (h\<lparr>objs := x\<rparr>) = shape h"
  by (simp add: shape_def fun_eq_iff)

lemma shape_live: "live h a blk \<Longrightarrow> shape h a = Some (variant blk)"
  by (simp add: shape_def live_def)

lemma nonnull_shape: "pointees_nonnull h \<longleftrightarrow> (\<forall>a. shape h a \<noteq> Some (FromPointer None))"
  by (auto simp: pointees_nonnull_def shape_def)

lemma unlink_weak_shape:
  assumes "unlink_weak_pointer_from_the_control_block w h = Ok w' h'"
  shows "shape h' = shape h"
  using assms
  by (auto simp: unlink_weak_pointer_from_the_control_block_def then_do_Ok deref_Ok
      destroy_block_def Let_def shape_put live_def split: option.splits if_splits prod.splits)

lemma destroy_object_shape:
  assumes "destroy_object a h = Ok u h'"
  shows "shape h' = shape h"
  using assms
  by (auto simp: destroy_object_def then_do_Ok deref_Ok Let_def shape_put live_def
      split: option.splits variant.splits prod.splits dest!: unlink_weak_shape)

lemma unlink_shared_shape:
  assumes "unlink_shared_pointer_from_the_control_block sp h = Ok sp' h'"
  shows "shape h' = shape h"
  using assms
  by (auto simp: unlink_shared_pointer_from_the_control_block_def then_do_Ok deref_Ok
      destroy_block_def Let_def shape_put live_def
      split: option.splits if_splits prod.splits dest!: destroy_object_shape)

lemma unlink_shared_handle:
  assumes "unlink_shared_pointer_from_the_control_block sp h = Ok sp' h'"
  shows "sp' = (if control_block sp = None then sp else SharedPtr_default)"
  using assms
  by (auto simp: unlink_shared_pointer_from_the_control_block_def then_do_Ok
      Let_def split: option.splits if_splits prod.splits)


lemma SharedPtr_copy_Ok:
  assumes "SharedPtr_copy sp h = Ok s h'"
  shows "s = sp \<and> shape h' = shape h"
  using assms
  by (auto simp: SharedPtr_copy_def then_do_Ok deref_Ok Let_def shape_put live_def
      split: option.splits prod.splits)

lemma SharedPtr_copy_conv_Ok:
  assumes "SharedPtr_copy_conv cast sp h = Ok s h'"
  shows "s = \<lparr>control_block = control_block sp, pointer = map_option cast (pointer sp)\<rparr> \<and>
         shape h' = shape h"
  using assms
  by (auto simp: SharedPtr_copy_conv_def then_do_Ok deref_Ok Let_def shape_put live_def
      split: option.splits prod.splits)

lemma SharedPtr_dtor_Ok:
  assumes "SharedPtr_dtor sp h = Ok sp' h' \<or> SharedPtr_reset sp h = Ok sp' h'"
  shows "sp' = (if control_block sp = None then sp else SharedPtr_default) \<and> shape h' = shape h"
  using assms unlink_shared_shape [of sp h sp' h'] unlink_shared_handle [of sp h sp' h']
  by (auto simp: SharedPtr_dtor_def SharedPtr_reset_def)

lemma SharedPtr_assign_copy_Ok:
  assumes "SharedPtr_assign_copy same this other h = Ok t h'"
  shows "(t = this \<or> t = other) \<and> shape h' = shape h"
  using assms
  by (auto simp: SharedPtr_assign_copy_def SharedPtr_assign_copy_tmpl_def then_do_Ok
      split: if_splits dest!: SharedPtr_copy_Ok unlink_shared_shape)

lemma SharedPtr_assign_move_Ok:
  assumes "SharedPtr_assign_move same this other h = Ok (t, o') h'"
  shows "((same \<and> t = this \<and> o' = this) \<or> (\<not> same \<and> t = other \<and> o' = SharedPtr_default)) \<and>
         shape h' = shape h"
  using assms
  by (auto simp: SharedPtr_assign_move_def SharedPtr_assign_move_tmpl_def then_do_Ok
      split: if_splits dest!: unlink_shared_shape)

lemma WeakPtr_dtor_shape:
  assumes "WeakPtr_dtor w h = Ok w' h' \<or> WeakPtr_reset w h = Ok w' h'"
  shows "shape h' = shape h"
  using assms unlink_weak_shape [of w h w' h']
  by (auto simp: WeakPtr_dtor_def WeakPtr_reset_def)

lemma WeakPtr_from_shared_shape:
  assumes "WeakPtr_from_shared sp h = Ok w h'"
  shows "shape h' = shape h"
  using assms
  by (auto simp: WeakPtr_from_shared_def then_do_Ok deref_Ok Let_def shape_put live_def
      split: prod.splits dest!: SharedPtr_dtor_Ok [OF disjI1])

lemma WeakPtr_copy_shape:
  assumes "WeakPtr_copy w h = Ok w' h'"
  shows "shape h' = shape h"
  using assms
  by (auto simp: WeakPtr_copy_def then_do_Ok deref_Ok Let_def shape_put live_def
      split: prod.splits)

lemma WeakPtr_assign_shape:
  assumes "WeakPtr_assign_copy same this w h = Ok t h' \<or>
           WeakPtr_assign_shared this sp h = Ok t h'"
  shows "shape h' = shape h"
  using assms
  by (auto simp: WeakPtr_assign_copy_def WeakPtr_assign_copy_tmpl_def
      WeakPtr_assign_shared_def then_do_Ok
      split: if_splits
      dest!: WeakPtr_copy_shape WeakPtr_dtor_shape [OF disjI1] WeakPtr_from_shared_shape
        SharedPtr_copy_Ok)

lemma WeakPtr_assign_move_shape:
  assumes "WeakPtr_assign_move same this w h = Ok t h'"
  shows "shape h' = shape h"
  using assms
  by (auto simp: WeakPtr_assign_move_def WeakPtr_assign_move_tmpl_def then_do_Ok
      split: if_splits dest!: WeakPtr_dtor_shape [OF disjI1])

lemma SharedPtr_priv_Ok:
  assumes "SharedPtr_priv mx ptr cb h = Ok s h'"
  shows "s = \<lparr>control_block = cb, pointer = ptr\<rparr> \<and> shape h' = shape h"
proof -
  from assms obtain a blk where L: "cb = Some a" "live h a blk"
    by (auto simp: SharedPtr_priv_def then_do_Ok deref_Ok)
  let ?h2 = "put a (blk\<lparr>shared_count := shared_count blk + 1\<rparr>) h"
  have S2: "shape ?h2 = shape h" using L by (simp add: shape_put live_def)
  show ?thesis
  proof (cases mx)
    case False
    then show ?thesis using assms L S2 by (simp add: SharedPtr_priv_def)
  next
    case True
    then obtain p wt where P: "ptr = Some p" "objs h p = Some wt"
      using assms L by (auto simp: SharedPtr_priv_def Let_def split: option.splits)
    with True assms L obtain wt' h3 where
      W: "WeakPtr_assign_shared wt \<lparr>control_block = cb, pointer = ptr\<rparr> ?h2 = Ok wt' h3"
         "s = \<lparr>control_block = cb, pointer = ptr\<rparr>" "h' = h3\<lparr>objs := (objs h3)(p \<mapsto> wt')\<rparr>"
      by (auto simp: SharedPtr_priv_def then_do_Ok Let_def)
    from W(1) have "shape h3 = shape ?h2" using WeakPtr_assign_shape by blast
    then show ?thesis using W S2 by simp
  qed
qed

lemma lock_Ok:
  assumes "lock mx w h = Ok s h'"
  shows "shape h' = shape h \<and>
         (s = SharedPtr_default \<or>
          (\<exists>a blk. live h a blk \<and> s = \<lparr>control_block = Some a, pointer = get_pointer a blk\<rparr>))"
  using assms
  by (auto simp: lock_def then_do_Ok deref_Ok expired_def
      split: option.splits if_splits prod.splits dest!: SharedPtr_priv_Ok)







lemma nonnull_shape_eq: "shape h' = shape h \<Longrightarrow> pointees_nonnull h \<Longrightarrow> pointees_nonnull h'"
  by (simp add: nonnull_shape)

lemma nonnull_shape_new:
  "shape h' = (shape h)(a \<mapsto> v) \<Longrightarrow> v \<noteq> FromPointer None \<Longrightarrow> pointees_nonnull h \<Longrightarrow>
     pointees_nonnull h'"
  by (simp add: nonnull_shape)

lemma handle_ok_simps [simp]:
  "handle_ok SharedPtr_default"
  "handle_ok \<lparr>control_block = control_block s, pointer = map_option cast (pointer s)\<rparr> = handle_ok s"
  "handle_ok \<lparr>control_block = Some a, pointer = Some q\<rparr>"
  by (simp_all add: handle_ok_def)











lemma obj_addr_inj [simp]: "obj_addr a = obj_addr b \<longleftrightarrow> a = b"
  by (simp add: obj_addr_def)

lemma block_inv_cong:
  assumes "objs h' (obj_addr a) = objs h (obj_addr a)"
  shows "block_inv mx h' a blk ns nw = block_inv mx h a blk ns nw"
  using assms by (simp add: block_inv_def weak_this_ok_def self_weak_def)

lemma heap_inv_frame:
  assumes "heap_inv mx h ns nw"
    and "\<And>b. b \<noteq> a \<Longrightarrow> blocks h' b = blocks h b \<and> objs h' (obj_addr b) = objs h (obj_addr b) \<and>
            ns' b = ns b \<and> nw' b = nw b"
    and "case blocks h' a of None \<Rightarrow> ns' a = 0 \<and> nw' a = 0
         | Some blk \<Rightarrow> block_inv mx h' a blk (ns' a) (nw' a)"
  shows "heap_inv mx h' ns' nw'"
  unfolding heap_inv_def
proof
  fix b
  show "case blocks h' b of None \<Rightarrow> ns' b = 0 \<and> nw' b = 0
        | Some blk \<Rightarrow> block_inv mx h' b blk (ns' b) (nw' b)"
  proof (cases "b = a")
    case True
    then show ?thesis using assms(3) by (simp split: option.splits)
  next
    case False
    from assms(1) have "case blocks h b of None \<Rightarrow> ns b = 0 \<and> nw b = 0
        | Some blk \<Rightarrow> block_inv mx h b blk (ns b) (nw b)"
      by (simp add: heap_inv_def)
    with assms(2) [OF False] block_inv_cong [of h' b h mx] show ?thesis
      by (simp split: option.splits)
  qed
qed

lemma heap_inv_at:
  "heap_inv mx h ns nw \<Longrightarrow>
     (case blocks h a of None \<Rightarrow> ns a = 0 \<and> nw a = 0
      | Some blk \<Rightarrow> block_inv mx h a blk (ns a) (nw a))"
  by (simp add: heap_inv_def)

lemma heap_inv_block:
  "heap_inv mx h ns nw \<Longrightarrow> blocks h a = Some blk \<Longrightarrow> block_inv mx h a blk (ns a) (nw a)"
  using heap_inv_at [of mx h ns nw a] by simp

lemma heap_inv_live:
  assumes "heap_inv mx h ns nw" "0 < ns a \<or> 0 < nw a"
  shows "\<exists>blk. live h a blk \<and> block_inv mx h a blk (ns a) (nw a)"
proof (cases "blocks h a")
  case None
  with assms heap_inv_at [of mx h ns nw a] show ?thesis by simp
next
  case (Some blk)
  with assms(1) have B: "block_inv mx h a blk (ns a) (nw a)" by (rule heap_inv_block)
  then have "dealloc_calls blk = 0" by (simp add: block_inv_def)
  with Some B show ?thesis by (auto simp: live_def)
qed

lemma weak_this_ok_put [simp]: "weak_this_ok (put a blk h) b = weak_this_ok h b"
  by (simp add: weak_this_ok_def)

lemma self_weak_put [simp]: "self_weak (put a blk' h) b blk = self_weak h b blk"
  by (simp add: self_weak_def)

lemma self_weak_upd [simp]:
  "self_weak h a (blk\<lparr>shared_count := x\<rparr>) = self_weak h a blk"
  "self_weak h a (blk\<lparr>weak_count := y\<rparr>) = self_weak h a blk"
  "self_weak h a (blk\<lparr>dealloc_calls := n\<rparr>) = self_weak h a blk"
  by (simp_all add: self_weak_def)

lemma unat_dec:
  fixes x :: size_t
  shows "x \<noteq> 0 \<Longrightarrow> unat (x - 1) = unat x - 1"
  by (simp add: unat_minus_one)

lemma unat_eq_1_iff:
  fixes x :: size_t
  shows "unat x = 1 \<longleftrightarrow> x = 1"
proof -
  have "unat x = unat (1::size_t) \<longleftrightarrow> x = 1" by (simp only: word_unat_eq_iff [symmetric])
  then show ?thesis by simp
qed

lemma live_inv:
  assumes "heap_inv mx h ns nw" "live h a blk"
  shows "weak_this_ok h a" "mx \<longrightarrow> variant blk = Embeded" "unat (shared_count blk) = ns a"
    "unat (weak_count blk) = nw a + self_weak h a blk" "0 < ns a \<or> 0 < nw a"
    "length (destroyed_at blk) = (if ns a = 0 then 1 else 0)"
    "ns a = 0 \<longrightarrow> self_weak h a blk = 0"
    "mx \<longrightarrow> objs h (obj_addr a) =
        (if 0 < ns a then Some \<lparr>wcontrol_block = Some a\<rparr> else None)"
    "dealloc_calls blk = 0"
  using heap_inv_block [OF assms(1), of a blk] assms(2)
  by (simp_all add: block_inv_def live_def)

lemma inv_inc_shared:
  assumes "heap_inv mx h ns nw" "live h a blk" "0 < ns a" "ns a + 1 < 2 ^ 64"
  shows "heap_inv mx (put a (blk\<lparr>shared_count := shared_count blk + 1\<rparr>) h)
           (ns(a := ns a + 1)) nw"
proof (rule heap_inv_frame [OF assms(1), where a = a])
  fix b assume "b \<noteq> a"
  then show "blocks (put a (blk\<lparr>shared_count := shared_count blk + 1\<rparr>) h) b = blocks h b \<and>
      objs (put a (blk\<lparr>shared_count := shared_count blk + 1\<rparr>) h) (obj_addr b) = objs h (obj_addr b) \<and>
      (ns(a := ns a + 1)) b = ns b \<and> nw b = nw b"
    by simp
next
  note I = live_inv [OF assms(1,2)]
  have "unat (shared_count blk + 1) = ns a + 1"
    using I(3) assms(4) unat_inc [of "shared_count blk"] by simp
  then show "case blocks (put a (blk\<lparr>shared_count := shared_count blk + 1\<rparr>) h) a of
        None \<Rightarrow> (ns(a := ns a + 1)) a = 0 \<and> nw a = 0
      | Some blk' \<Rightarrow> block_inv mx (put a (blk\<lparr>shared_count := shared_count blk + 1\<rparr>) h) a blk'
          ((ns(a := ns a + 1)) a) (nw a)"
    using I assms(3) by (simp add: block_inv_def)
qed

lemma inv_dec_shared:
  assumes "heap_inv mx h ns nw" "live h a blk" "1 < shared_count blk"
  shows "heap_inv mx (put a (blk\<lparr>shared_count := shared_count blk - 1\<rparr>) h)
           (ns(a := ns a - 1)) nw"
proof (rule heap_inv_frame [OF assms(1), where a = a])
  fix b assume "b \<noteq> a"
  then show "blocks (put a (blk\<lparr>shared_count := shared_count blk - 1\<rparr>) h) b = blocks h b \<and>
      objs (put a (blk\<lparr>shared_count := shared_count blk - 1\<rparr>) h) (obj_addr b) = objs h (obj_addr b) \<and>
      (ns(a := ns a - 1)) b = ns b \<and> nw b = nw b"
    by simp
next
  note I = live_inv [OF assms(1,2)]
  have gt: "1 < ns a" using assms(3) I(3) by (simp add: word_less_nat_alt)
  then have "shared_count blk \<noteq> 0" using I(3) by auto
  then have "unat (shared_count blk - 1) = ns a - 1" using I(3) by (simp add: unat_dec)
  then show "case blocks (put a (blk\<lparr>shared_count := shared_count blk - 1\<rparr>) h) a of
        None \<Rightarrow> (ns(a := ns a - 1)) a = 0 \<and> nw a = 0
      | Some blk' \<Rightarrow> block_inv mx (put a (blk\<lparr>shared_count := shared_count blk - 1\<rparr>) h) a blk'
          ((ns(a := ns a - 1)) a) (nw a)"
    using I gt by (simp add: block_inv_def)
qed

lemma inv_inc_weak:
  assumes "heap_inv mx h ns nw" "live h a blk" "nw a + 2 < 2 ^ 64"
  shows "heap_inv mx (put a (blk\<lparr>weak_count := weak_count blk + 1\<rparr>) h)
           ns (nw(a := nw a + 1))"
proof (rule heap_inv_frame [OF assms(1), where a = a])
  fix b assume "b \<noteq> a"
  then show "blocks (put a (blk\<lparr>weak_count := weak_count blk + 1\<rparr>) h) b = blocks h b \<and>
      objs (put a (blk\<lparr>weak_count := weak_count blk + 1\<rparr>) h) (obj_addr b) = objs h (obj_addr b) \<and>
      ns b = ns b \<and> (nw(a := nw a + 1)) b = nw b"
    by simp
next
  note I = live_inv [OF assms(1,2)]
  have "self_weak h a blk \<le> 1" by (rule self_weak_le)
  then have "unat (weak_count blk + 1) = nw a + self_weak h a blk + 1"
    using I(4) assms(3) unat_inc [of "weak_count blk"] by simp
  then show "case blocks (put a (blk\<lparr>weak_count := weak_count blk + 1\<rparr>) h) a of
        None \<Rightarrow> ns a = 0 \<and> (nw(a := nw a + 1)) a = 0
      | Some blk' \<Rightarrow> block_inv mx (put a (blk\<lparr>weak_count := weak_count blk + 1\<rparr>) h) a blk'
          (ns a) ((nw(a := nw a + 1)) a)"
    using I by (simp add: block_inv_def)
qed

lemma unat_sub_self:
  fixes wc :: size_t
  assumes "unat wc = n + k" "k \<le> 1"
  shows "unat (wc - of_nat k) = n"
proof -
  have k: "unat (of_nat k :: size_t) = k" using assms(2) by (simp add: unat_of_nat)
  then have "(of_nat k :: size_t) \<le> wc" using assms(1) by (simp add: word_le_nat_alt)
  then have "unat (wc - of_nat k) = unat wc - unat (of_nat k :: size_t)" by (rule unat_sub)
  with k assms(1) show ?thesis by simp
qed

lemma objs_after_last:
  "b \<noteq> a \<Longrightarrow> objs (after_last h a blk) (obj_addr b) = objs h (obj_addr b)"
  by (simp add: after_last_def)

lemma weak_this_ok_after_last: "weak_this_ok h a \<Longrightarrow> weak_this_ok (after_last h a blk) a"
  by (simp add: after_last_def weak_this_ok_def)

lemma self_weak_after_last: "self_weak (after_last h a blk) a blk' = 0 \<or> variant blk' \<noteq> variant blk"
  by (simp add: after_last_def self_weak_def)

lemma weak_eq_self_iff:
  assumes "heap_inv mx h ns nw" "live h a blk"
  shows "weak_count blk = of_nat (self_weak h a blk) \<longleftrightarrow> nw a = 0"
proof -
  note I = live_inv [OF assms]
  have "unat (weak_count blk - of_nat (self_weak h a blk)) = nw a"
    using I(4) self_weak_le [of h a blk] by (rule unat_sub_self)
  then have "weak_count blk - of_nat (self_weak h a blk) = 0 \<longleftrightarrow> nw a = 0"
    by (metis unat_0_iff)
  then show ?thesis by simp
qed

lemma inv_after_last:
  assumes "heap_inv mx h ns nw" "live h a blk" "shared_count blk = 1" "0 < nw a"
  shows "heap_inv mx (after_last h a blk) (ns(a := ns a - 1)) nw"
proof (rule heap_inv_frame [OF assms(1), where a = a])
  fix b assume "b \<noteq> a"
  then show "blocks (after_last h a blk) b = blocks h b \<and>
      objs (after_last h a blk) (obj_addr b) = objs h (obj_addr b) \<and>
      (ns(a := ns a - 1)) b = ns b \<and> nw b = nw b"
    by (simp add: blocks_after_last_other objs_after_last)
next
  note I = live_inv [OF assms(1,2)]
  let ?wc = "weak_count blk - of_nat (self_weak h a blk)"
  let ?blk = "blk\<lparr>shared_count := 0, weak_count := ?wc,
               destroyed_at := destroyed_at blk @ [1]\<rparr>"
  have n1: "ns a = 1" using assms(3) I(3) by simp
  have wc: "unat ?wc = nw a" using I(4) self_weak_le [of h a blk] by (rule unat_sub_self)
  have sw: "self_weak (after_last h a blk) a ?blk = 0"
    using self_weak_after_last [of h a blk ?blk] by simp
  have wo: "weak_this_ok (after_last h a blk) a" using I(1) by (rule weak_this_ok_after_last)
  have ob: "mx \<longrightarrow> objs (after_last h a blk) (obj_addr a) = None"
    using I(2) by (simp add: after_last_def)
  have "block_inv mx (after_last h a blk) a ?blk 0 (nw a)"
    using I(2,6,9) n1 wc sw wo ob assms(4) by (simp add: block_inv_def)
  then show "case blocks (after_last h a blk) a of
        None \<Rightarrow> (ns(a := ns a - 1)) a = 0 \<and> nw a = 0
      | Some blk' \<Rightarrow> block_inv mx (after_last h a blk) a blk' ((ns(a := ns a - 1)) a) (nw a)"
    using n1 by (simp add: after_last_block)
qed

lemma unlink_weak_live:
  assumes "live h a blk" "wcontrol_block w = Some a"
  shows "unlink_weak_pointer_from_the_control_block w h =
     (if shared_count blk = 0 \<and> weak_count blk - 1 = 0 then Undefined Dangling
      else Ok WeakPtr_default (put a (blk\<lparr>weak_count := weak_count blk - 1\<rparr>) h))"
proof (cases blk)
  case (fields sc wc v ds n)
  show ?thesis
  proof (cases h)
    case (fields bs os)
    show ?thesis using assms \<open>blk = _\<close> \<open>h = _\<close>
      by (auto simp: unlink_weak_pointer_from_the_control_block_def Let_def destroy_block_def
          put_def live_def deref_def)
  qed
qed

lemma inv_dec_weak:
  assumes "heap_inv mx h ns nw" "live h a blk" "0 < nw a" "0 < ns a \<or> 1 < nw a"
  shows "heap_inv mx (put a (blk\<lparr>weak_count := weak_count blk - 1\<rparr>) h)
     ns (nw(a := nw a - 1))"
    (is "heap_inv mx (put a ?blk h) _ _")
proof (rule heap_inv_frame [OF assms(1), where a = a])
  fix b assume "b \<noteq> a"
  then show "blocks (put a ?blk h) b = blocks h b \<and>
      objs (put a ?blk h) (obj_addr b) = objs h (obj_addr b) \<and>
      ns b = ns b \<and> (nw(a := nw a - 1)) b = nw b"
    by simp
next
  note I = live_inv [OF assms(1,2)]
  have "weak_count blk \<noteq> 0" using I(4) assms(3) by auto
  then have wc: "unat (weak_count blk - 1) = nw a - 1 + self_weak h a blk"
    using I(4) assms(3) by (simp add: unat_dec)
  have "block_inv mx (put a ?blk h) a ?blk (ns a) (nw a - 1)"
    using I wc assms(3,4) by (auto simp: block_inv_def)
  then show "case blocks (put a ?blk h) a of
        None \<Rightarrow> ns a = 0 \<and> (nw(a := nw a - 1)) a = 0
      | Some blk' \<Rightarrow> block_inv mx (put a ?blk h) a blk' (ns a) ((nw(a := nw a - 1)) a)"
    by simp
qed

lemma weak_last_iff:
  assumes "heap_inv mx h ns nw" "live h a blk" "0 < nw a"
  shows "shared_count blk = 0 \<and> weak_count blk - 1 = 0 \<longleftrightarrow> ns a = 0 \<and> nw a = 1"
proof -
  note I = live_inv [OF assms(1,2)]
  have "weak_count blk \<noteq> 0" using I(4) assms(3) by auto
  then have wc: "unat (weak_count blk - 1) = nw a - 1 + self_weak h a blk"
    using I(4) assms(3) by (simp add: unat_dec)
  have s0: "shared_count blk = 0 \<longleftrightarrow> ns a = 0" using I(3) by (metis unat_0_iff)
  have w0: "weak_count blk - 1 = 0 \<longleftrightarrow> nw a - 1 + self_weak h a blk = 0"
    using wc by (metis unat_0_iff)
  show ?thesis using s0 w0 I(7) assms(3) by auto
qed

lemma inv_bind:
  assumes "heap_inv True h ns nw" "live h a blk" "0 < ns a" "ns a + 2 < 2 ^ 64" "nw a + 2 < 2 ^ 64"
    "objs h (obj_addr a) = Some wt"
  shows "heap_inv True
     (h\<lparr>blocks := (blocks h)(a \<mapsto>
           blk\<lparr>shared_count := shared_count blk + 1,
               weak_count := (if wcontrol_block wt = None then weak_count blk + 1
                              else weak_count blk)\<rparr>),
        objs := (objs h)(obj_addr a \<mapsto> \<lparr>wcontrol_block = Some a\<rparr>)\<rparr>)
     (ns(a := ns a + 1)) nw"
    (is "heap_inv True ?h _ _")
proof (rule heap_inv_frame [OF assms(1), where a = a])
  fix b assume "b \<noteq> a"
  then show "blocks ?h b = blocks h b \<and> objs ?h (obj_addr b) = objs h (obj_addr b) \<and>
      (ns(a := ns a + 1)) b = ns b \<and> nw b = nw b"
    by simp
next
  note I = live_inv [OF assms(1,2)]
  let ?blk = "blk\<lparr>shared_count := shared_count blk + 1,
               weak_count := (if wcontrol_block wt = None then weak_count blk + 1
                              else weak_count blk)\<rparr>"
  have sc: "unat (shared_count blk + 1) = ns a + 1"
    using I(3) assms(4) unat_inc [of "shared_count blk"] by simp
  have emb: "variant blk = Embeded" using I(2) by simp
  have wt: "wcontrol_block wt = None \<or> wcontrol_block wt = Some a"
    using I(1) assms(6) by (simp add: weak_this_ok_def)
  have sw_old: "self_weak h a blk = (if wcontrol_block wt = None then 0 else 1)"
    using wt assms(6) emb by (cases wt) (auto simp: self_weak_def)
  have sw_new: "self_weak ?h a ?blk = 1" using emb by (simp add: self_weak_def)
  have wc: "unat (weak_count ?blk) = nw a + 1"
  proof (cases "wcontrol_block wt = None")
    case True
    then have "unat (weak_count blk) = nw a" using I(4) sw_old by simp
    then have "unat (weak_count blk + 1) = nw a + 1"
      using assms(5) unat_inc [of "weak_count blk"] by simp
    with True show ?thesis by simp
  next
    case False
    then show ?thesis using I(4) sw_old by auto
  qed
  have "block_inv True ?h a ?blk (ns a + 1) (nw a)"
    using I(6,9) sc wc sw_new emb assms(3) by (simp add: block_inv_def weak_this_ok_def)
  then show "case blocks ?h a of
        None \<Rightarrow> (ns(a := ns a + 1)) a = 0 \<and> nw a = 0
      | Some blk' \<Rightarrow> block_inv True ?h a blk' ((ns(a := ns a + 1)) a) (nw a)"
    by simp
qed

lemma acq_rel_simps [simp]:
  "acq None f = f" "rel None f = f"
  "acq (Some a) f = f(a := f a + 1)" "rel (Some a) f = f(a := f a - 1)"
  by (simp_all add: acq_def rel_def)

lemma sc_pos:
  assumes "heap_inv mx h ns nw" "live h a blk"
  shows "shared_count blk \<noteq> 0 \<longleftrightarrow> 0 < ns a"
  using live_inv(3) [OF assms] by (metis unat_0_iff neq0_conv)

lemma SharedPtr_copy_inv:
  assumes "heap_inv mx h ns nw"
    "\<And>a. control_block sp = Some a \<Longrightarrow> 0 < ns a \<and> ns a + 1 < 2 ^ 64"
  shows "\<exists>h'. SharedPtr_copy sp h = Ok sp h' \<and> heap_inv mx h' (acq (control_block sp) ns) nw"
proof (cases "control_block sp")
  case None
  then show ?thesis using assms(1) by (simp add: SharedPtr_copy_null)
next
  case (Some a)
  from assms(2) [OF Some] have P: "0 < ns a" "ns a + 1 < 2 ^ 64" by simp_all
  from heap_inv_live [OF assms(1), of a] P obtain blk where L: "live h a blk" by blast
  show ?thesis
    using Some SharedPtr_copy_live [OF L Some] inv_inc_shared [OF assms(1) L P] by simp
qed

lemma SharedPtr_copy_conv_inv:
  assumes "heap_inv mx h ns nw"
    "\<And>a. control_block sp = Some a \<Longrightarrow> 0 < ns a \<and> ns a + 1 < 2 ^ 64"
  shows "\<exists>h'. SharedPtr_copy_conv cast sp h =
            Ok \<lparr>control_block = control_block sp, pointer = map_option cast (pointer sp)\<rparr> h' \<and>
          heap_inv mx h' (acq (control_block sp) ns) nw"
proof (cases "control_block sp")
  case None
  then show ?thesis using assms(1) by (simp add: SharedPtr_copy_conv_def)
next
  case (Some a)
  from assms(2) [OF Some] have P: "0 < ns a" "ns a + 1 < 2 ^ 64" by simp_all
  from heap_inv_live [OF assms(1), of a] P obtain blk where L: "live h a blk" by blast
  show ?thesis
    using Some SharedPtr_copy_conv_live [OF L Some, of cast] inv_inc_shared [OF assms(1) L P]
    by simp
qed

lemma sole_simps [simp]:
  "sole None ns nw = False" "sole (Some a) ns nw \<longleftrightarrow> ns a + nw a = 1"
  by (simp_all add: sole_def)

lemma unlink_shared_inv:
  assumes "heap_inv mx h ns nw" "\<And>a. control_block sp = Some a \<Longrightarrow> 0 < ns a"
  shows "if sole (control_block sp) ns nw
         then unlink_shared_pointer_from_the_control_block sp h = Undefined Dangling
         else \<exists>h'. unlink_shared_pointer_from_the_control_block sp h =
                  Ok (if control_block sp = None then sp else SharedPtr_default) h' \<and>
                heap_inv mx h' (rel (control_block sp) ns) nw"
proof (cases "control_block sp")
  case None
  then show ?thesis using assms(1) by simp
next
  case (Some a)
  from assms(2) [OF Some] have P: "0 < ns a" .
  from heap_inv_live [OF assms(1), of a] P obtain blk where L: "live h a blk" by blast
  note I = live_inv [OF assms(1) L]
  have "shared_count blk \<noteq> 0" using sc_pos [OF assms(1) L] P by simp
  then consider "shared_count blk = 1" | "1 < shared_count blk"
    using word_ne0_cases by blast
  then show ?thesis
  proof cases
    case 1
    then have n1: "ns a = 1" using I(3) by simp
    show ?thesis
    proof (cases "nw a = 0")
      case True
      then have "weak_count blk = of_nat (self_weak h a blk)"
        using weak_eq_self_iff [OF assms(1) L] by simp
      then have "unlink_shared_pointer_from_the_control_block sp h = Undefined Dangling"
        using unlink_shared_last [OF L 1 Some I(1)] by simp
      then show ?thesis using Some n1 True by simp
    next
      case False
      then have "weak_count blk \<noteq> of_nat (self_weak h a blk)"
        using weak_eq_self_iff [OF assms(1) L] by simp
      then have "unlink_shared_pointer_from_the_control_block sp h =
          Ok empty_SharedPtr (after_last h a blk)"
        using unlink_shared_last [OF L 1 Some I(1)] by simp
      moreover have "heap_inv mx (after_last h a blk) (ns(a := ns a - 1)) nw"
        using inv_after_last [OF assms(1) L 1] False by simp
      ultimately show ?thesis using Some n1 False by simp
    qed
  next
    case 2
    then have "1 < ns a" using I(3) by (simp add: word_less_nat_alt)
    with unlink_shared_not_last [OF L 2 Some] inv_dec_shared [OF assms(1) L 2] Some
    show ?thesis by simp
  qed
qed

lemma unlink_weak_inv:
  assumes "heap_inv mx h ns nw" "\<And>a. wcontrol_block w = Some a \<Longrightarrow> 0 < nw a"
  shows "if sole (wcontrol_block w) ns nw
         then unlink_weak_pointer_from_the_control_block w h = Undefined Dangling
         else \<exists>h'. unlink_weak_pointer_from_the_control_block w h =
                  Ok (if wcontrol_block w = None then w else WeakPtr_default) h' \<and>
                heap_inv mx h' ns (rel (wcontrol_block w) nw)"
proof (cases "wcontrol_block w")
  case None
  then show ?thesis using assms(1) by simp
next
  case (Some a)
  from assms(2) [OF Some] have P: "0 < nw a" .
  from heap_inv_live [OF assms(1), of a] P obtain blk where L: "live h a blk" by blast
  note W = weak_last_iff [OF assms(1) L P]
  show ?thesis
  proof (cases "ns a = 0 \<and> nw a = 1")
    case True
    then have "unlink_weak_pointer_from_the_control_block w h = Undefined Dangling"
      using unlink_weak_live [OF L Some] W by simp
    then show ?thesis using Some True by simp
  next
    case False
    then have "unlink_weak_pointer_from_the_control_block w h =
        Ok WeakPtr_default (put a (blk\<lparr>weak_count := weak_count blk - 1\<rparr>) h)"
      using unlink_weak_live [OF L Some] W by simp
    moreover have "0 < ns a \<or> 1 < nw a" using False P by auto
    note inv_dec_weak [OF assms(1) L P this]
    moreover have "ns a + nw a \<noteq> 1" using False P by auto
    ultimately show ?thesis using Some by simp
  qed
qed

lemma WeakPtr_copy_inv:
  assumes "heap_inv mx h ns nw" "wcontrol_block w = Some a" "0 < nw a" "nw a + 2 < 2 ^ 64"
  shows "\<exists>h'. WeakPtr_copy w h = Ok \<lparr>wcontrol_block = Some a\<rparr> h' \<and>
          heap_inv mx h' ns (nw(a := nw a + 1))"
proof -
  from heap_inv_live [OF assms(1), of a] assms(3) obtain blk where L: "live h a blk" by blast
  have "WeakPtr_copy w h = Ok \<lparr>wcontrol_block = Some a\<rparr>
          (put a (blk\<lparr>weak_count := weak_count blk + 1\<rparr>) h)"
    using L assms(2) by (simp add: WeakPtr_copy_def)
  with inv_inc_weak [OF assms(1) L assms(4)] show ?thesis by simp
qed

lemma WeakPtr_copy_null: "wcontrol_block w = None \<Longrightarrow> WeakPtr_copy w h = Undefined NullDeref"
  by (simp add: WeakPtr_copy_def deref_def)

lemma WeakPtr_from_shared_null:
  "control_block sp = None \<Longrightarrow> WeakPtr_from_shared sp h = Undefined NullDeref"
  by (simp add: WeakPtr_from_shared_def deref_def)

lemma WeakPtr_from_shared_inv:
  assumes "heap_inv mx h ns nw" "control_block param = Some a" "0 < ns a" "nw a + 2 < 2 ^ 64"
  shows "\<exists>h'. WeakPtr_from_shared param h = Ok \<lparr>wcontrol_block = Some a\<rparr> h' \<and>
          heap_inv mx h' (ns(a := ns a - 1)) (nw(a := nw a + 1))"
proof -
  from heap_inv_live [OF assms(1), of a] assms(3) obtain blk where L: "live h a blk" by blast
  let ?h2 = "put a (blk\<lparr>weak_count := weak_count blk + 1\<rparr>) h"
  have I2: "heap_inv mx ?h2 ns (nw(a := nw a + 1))" by (rule inv_inc_weak [OF assms(1) L assms(4)])
  from unlink_shared_inv [OF I2, of param] assms(2,3) obtain h3 where
    U: "unlink_shared_pointer_from_the_control_block param ?h2 = Ok SharedPtr_default h3"
       "heap_inv mx h3 (ns(a := ns a - 1)) (nw(a := nw a + 1))"
    by auto
  have "WeakPtr_from_shared param h = Ok \<lparr>wcontrol_block = Some a\<rparr> h3"
    using L assms(2) U(1) by (simp add: WeakPtr_from_shared_def SharedPtr_dtor_def)
  with U(2) show ?thesis by simp
qed

lemma lock_inv:
  assumes "heap_inv mx h ns nw" "\<And>a. wcontrol_block w = Some a \<Longrightarrow> 0 < ns a \<or> 0 < nw a"
    "\<And>a. ns a + 2 < 2 ^ 64 \<and> nw a + 2 < 2 ^ 64"
  shows "\<exists>s h'. lock mx w h = Ok s h' \<and> heap_inv mx h' (acq (control_block s) ns) nw"
proof (cases "wcontrol_block w")
  case None
  then have "lock mx w h = Ok SharedPtr_default h" by (simp add: lock_expired expired_null)
  then show ?thesis using assms(1) by simp
next
  case (Some a)
  from assms(2) [OF Some] have P: "0 < ns a \<or> 0 < nw a" .
  from heap_inv_live [OF assms(1), of a] P obtain blk where L: "live h a blk" by blast
  note I = live_inv [OF assms(1) L]
  show ?thesis
  proof (cases "shared_count blk = 0")
    case True
    then have "expired w h = Ok True h" using expired_live [OF L Some] by simp
    then have "lock mx w h = Ok SharedPtr_default h" by (rule lock_expired)
    then show ?thesis using assms(1) by simp
  next
    case False
    then have N: "0 < ns a" using sc_pos [OF assms(1) L] by simp
    have B: "ns a + 1 < 2 ^ 64" "ns a + 2 < 2 ^ 64" "nw a + 2 < 2 ^ 64"
      using assms(3) [of a] by simp_all
    have U: "unat (shared_count blk) + 2 < 2 ^ 64" using I(3) B by simp
    show ?thesis
    proof (cases mx)
      case False
      have "lock mx w h = Ok \<lparr>control_block = Some a, pointer = get_pointer a blk\<rparr>
               (put a (blk\<lparr>shared_count := shared_count blk + 1\<rparr>) h)"
        using False \<open>shared_count blk \<noteq> 0\<close> lock_live [OF L Some, of mx]
          SharedPtr_priv_plain [OF L] by simp
      with inv_inc_shared [OF assms(1) L N B(1)] show ?thesis by simp
    next
      case True
      have emb: "variant blk = Embeded" using I(2) True by simp
      then have gp: "get_pointer a blk = Some (obj_addr a)" by (simp add: get_pointer_def)
      from I(8) True N obtain wt where O: "objs h (obj_addr a) = Some wt" by auto
      have wt: "wcontrol_block wt = None \<or> wcontrol_block wt = Some a"
        using I(1) O by (simp add: weak_this_ok_def)
      have "lock mx w h = Ok \<lparr>control_block = Some a, pointer = Some (obj_addr a)\<rparr>
          (h\<lparr>blocks := (blocks h)(a \<mapsto>
                blk\<lparr>shared_count := shared_count blk + 1,
                    weak_count := (if wcontrol_block wt = None then weak_count blk + 1
                                   else weak_count blk)\<rparr>),
             objs := (objs h)(obj_addr a \<mapsto> \<lparr>wcontrol_block = Some a\<rparr>)\<rparr>)"
        using True \<open>shared_count blk \<noteq> 0\<close> lock_live [OF L Some, of mx] gp
          SharedPtr_priv_mixin [OF L O wt U] by simp
      moreover have "heap_inv True h ns nw" using assms(1) True by simp
      note inv_bind [of h ns nw a blk wt, OF this L N B(2,3) O]
      ultimately show ?thesis using True by simp
    qed
  qed
qed

lemma SharedPtr_assign_copy_inv:
  assumes "heap_inv mx h ns nw"
    "\<And>a. control_block this = Some a \<Longrightarrow> 0 < ns a"
    "\<And>a. control_block other = Some a \<Longrightarrow> 0 < ns a \<and> ns a + 1 < 2 ^ 64"
  shows "if sole (control_block this) (acq (control_block other) ns) nw
         then SharedPtr_assign_copy False this other h = Undefined Dangling
         else \<exists>h'. SharedPtr_assign_copy False this other h = Ok other h' \<and>
           heap_inv mx h' (rel (control_block this) (acq (control_block other) ns)) nw"
proof -
  from SharedPtr_copy_inv [OF assms(1), of other] assms(3) obtain h1 where
    C: "SharedPtr_copy other h = Ok other h1" "heap_inv mx h1 (acq (control_block other) ns) nw"
    by blast
  have "\<And>a. control_block this = Some a \<Longrightarrow> 0 < acq (control_block other) ns a"
    using assms(2) by (cases "control_block other") auto
  note U = unlink_shared_inv [OF C(2), of this, OF this]
  show ?thesis
  proof (cases "sole (control_block this) (acq (control_block other) ns) nw")
    case True
    with U have "unlink_shared_pointer_from_the_control_block this h1 = Undefined Dangling"
      by simp
    then show ?thesis using True C(1)
      by (simp add: SharedPtr_assign_copy_def SharedPtr_assign_copy_tmpl_def)
  next
    case False
    with U obtain h2 where
      U2: "unlink_shared_pointer_from_the_control_block this h1 =
            Ok (if control_block this = None then this else SharedPtr_default) h2"
         "heap_inv mx h2 (rel (control_block this) (acq (control_block other) ns)) nw"
      by auto
    have "SharedPtr_assign_copy False this other h = Ok other h2"
      using C(1) U2(1) by (simp add: SharedPtr_assign_copy_def SharedPtr_assign_copy_tmpl_def)
    with U2(2) False show ?thesis by simp
  qed
qed

lemma SharedPtr_assign_move_inv:
  assumes "heap_inv mx h ns nw" "\<And>a. control_block this = Some a \<Longrightarrow> 0 < ns a"
  shows "if sole (control_block this) ns nw
         then SharedPtr_assign_move False this other h = Undefined Dangling
         else \<exists>h'. SharedPtr_assign_move False this other h = Ok (other, SharedPtr_default) h' \<and>
           heap_inv mx h' (rel (control_block this) ns) nw"
proof -
  note U = unlink_shared_inv [OF assms(1), of this, OF assms(2)]
  show ?thesis
  proof (cases "sole (control_block this) ns nw")
    case True
    with U show ?thesis by (simp add: SharedPtr_assign_move_eq SharedPtr_dtor_def)
  next
    case False
    with U obtain h2 where
      "unlink_shared_pointer_from_the_control_block this h =
            Ok (if control_block this = None then this else SharedPtr_default) h2"
      "heap_inv mx h2 (rel (control_block this) ns) nw"
      by auto
    then show ?thesis using False by (simp add: SharedPtr_assign_move_eq SharedPtr_dtor_def)
  qed
qed

lemma WeakPtr_assign_copy_inv:
  assumes "heap_inv mx h ns nw"
    "\<And>a. wcontrol_block this = Some a \<Longrightarrow> 0 < nw a"
    "wcontrol_block other = Some b" "0 < nw b" "nw b + 2 < 2 ^ 64"
  shows "if sole (wcontrol_block this) ns (nw(b := nw b + 1))
         then WeakPtr_assign_copy False this other h = Undefined Dangling
         else \<exists>h'. WeakPtr_assign_copy False this other h = Ok \<lparr>wcontrol_block = Some b\<rparr> h' \<and>
           heap_inv mx h' ns (rel (wcontrol_block this) (nw(b := nw b + 1)))"
proof -
  from WeakPtr_copy_inv [OF assms(1,3,4,5)] obtain h1 where
    C: "WeakPtr_copy other h = Ok \<lparr>wcontrol_block = Some b\<rparr> h1"
       "heap_inv mx h1 ns (nw(b := nw b + 1))"
    by blast
  have "\<And>a. wcontrol_block this = Some a \<Longrightarrow> 0 < (nw(b := nw b + 1)) a"
    using assms(2) by auto
  note U = unlink_weak_inv [OF C(2), of this, OF this]
  show ?thesis
  proof (cases "sole (wcontrol_block this) ns (nw(b := nw b + 1))")
    case True
    with U have "unlink_weak_pointer_from_the_control_block this h1 = Undefined Dangling"
      by simp
    then show ?thesis using True C(1)
      by (simp add: WeakPtr_assign_copy_def WeakPtr_assign_copy_tmpl_def WeakPtr_dtor_def)
  next
    case False
    with U obtain h2 where
      U2: "unlink_weak_pointer_from_the_control_block this h1 =
            Ok (if wcontrol_block this = None then this else WeakPtr_default) h2"
         "heap_inv mx h2 ns (rel (wcontrol_block this) (nw(b := nw b + 1)))"
      by auto
    have "WeakPtr_assign_copy False this other h = Ok \<lparr>wcontrol_block = Some b\<rparr> h2"
      using C(1) U2(1)
      by (simp add: WeakPtr_assign_copy_def WeakPtr_assign_copy_tmpl_def WeakPtr_dtor_def)
    with U2(2) False show ?thesis by simp
  qed
qed

lemma WeakPtr_assign_copy_null:
  "wcontrol_block other = None \<Longrightarrow>
     WeakPtr_assign_copy False this other h = Undefined NullDeref"
  by (simp add: WeakPtr_assign_copy_def WeakPtr_assign_copy_tmpl_def WeakPtr_copy_null)

lemma WeakPtr_assign_shared_null:
  "control_block other = None \<Longrightarrow> WeakPtr_assign_shared this other h = Undefined NullDeref"
  by (simp add: WeakPtr_assign_shared_def SharedPtr_copy_null WeakPtr_from_shared_null)

lemma WeakPtr_assign_shared_inv:
  assumes "heap_inv mx h ns nw"
    "\<And>a. wcontrol_block this = Some a \<Longrightarrow> 0 < nw a"
    "control_block other = Some b" "0 < ns b" "ns b + 1 < 2 ^ 64" "nw b + 2 < 2 ^ 64"
  shows "if sole (wcontrol_block this) ns (nw(b := nw b + 1))
         then WeakPtr_assign_shared this other h = Undefined Dangling
         else \<exists>h'. WeakPtr_assign_shared this other h = Ok \<lparr>wcontrol_block = Some b\<rparr> h' \<and>
           heap_inv mx h' ns (rel (wcontrol_block this) (nw(b := nw b + 1)))"
proof -
  from SharedPtr_copy_inv [OF assms(1), of other] assms(3,4,5) obtain h1 where
    C: "SharedPtr_copy other h = Ok other h1" "heap_inv mx h1 (ns(b := ns b + 1)) nw"
    by auto
  from WeakPtr_from_shared_inv [OF C(2) assms(3), of ] assms(6) obtain h2 where
    F: "WeakPtr_from_shared other h1 = Ok \<lparr>wcontrol_block = Some b\<rparr> h2"
       "heap_inv mx h2 ((ns(b := ns b + 1))(b := (ns(b := ns b + 1)) b - 1)) (nw(b := nw b + 1))"
    by auto
  have "(ns(b := ns b + 1))(b := (ns(b := ns b + 1)) b - 1) = ns" by auto
  with F(2) have I2: "heap_inv mx h2 ns (nw(b := nw b + 1))" by simp
  have "\<And>a. wcontrol_block this = Some a \<Longrightarrow> 0 < (nw(b := nw b + 1)) a"
    using assms(2) by auto
  note U = unlink_weak_inv [OF I2, of this, OF this]
  show ?thesis
  proof (cases "sole (wcontrol_block this) ns (nw(b := nw b + 1))")
    case True
    with U have "unlink_weak_pointer_from_the_control_block this h2 = Undefined Dangling"
      by simp
    then show ?thesis using True C(1) F(1)
      by (simp add: WeakPtr_assign_shared_def WeakPtr_dtor_def)
  next
    case False
    with U obtain h3 where
      U2: "unlink_weak_pointer_from_the_control_block this h2 =
            Ok (if wcontrol_block this = None then this else WeakPtr_default) h3"
         "heap_inv mx h3 ns (rel (wcontrol_block this) (nw(b := nw b + 1)))"
      by auto
    have "WeakPtr_assign_shared this other h = Ok \<lparr>wcontrol_block = Some b\<rparr> h3"
      using C(1) F(1) U2(1) by (simp add: WeakPtr_assign_shared_def WeakPtr_dtor_def)
    with U2(2) False show ?thesis by simp
  qed
qed

lemma WeakPtr_assign_move_eq:
  "WeakPtr_assign_move False this other h =
     then_do (WeakPtr_dtor this h) (\<lambda>_ h1. Ok (other, WeakPtr_default) h1)"
  by (cases other) (simp add: WeakPtr_assign_move_def WeakPtr_assign_move_tmpl_def WeakPtr_dtor_def
      WeakPtr_default_def)

lemma WeakPtr_assign_move_inv:
  assumes "heap_inv mx h ns nw" "\<And>a. wcontrol_block this = Some a \<Longrightarrow> 0 < nw a"
  shows "if sole (wcontrol_block this) ns nw
         then WeakPtr_assign_move False this other h = Undefined Dangling
         else \<exists>h'. WeakPtr_assign_move False this other h = Ok (other, WeakPtr_default) h' \<and>
           heap_inv mx h' ns (rel (wcontrol_block this) nw)"
proof -
  note U = unlink_weak_inv [OF assms(1), of this, OF assms(2)]
  show ?thesis
  proof (cases "sole (wcontrol_block this) ns nw")
    case True
    with U show ?thesis by (simp add: WeakPtr_assign_move_eq WeakPtr_dtor_def)
  next
    case False
    with U obtain h2 where
      "unlink_weak_pointer_from_the_control_block this h =
            Ok (if wcontrol_block this = None then this else WeakPtr_default) h2"
      "heap_inv mx h2 ns (rel (wcontrol_block this) nw)"
      by auto
    then show ?thesis using False by (simp add: WeakPtr_assign_move_eq WeakPtr_dtor_def)
  qed
qed

lemma count_append:
  "length (filter (\<lambda>x. f x = Some a) (xs @ [s])) =
     acq (f s) (\<lambda>a. length (filter (\<lambda>x. f x = Some a) xs)) a"
  by (cases "f s") auto

lemma count_update:
  assumes "i < length xs"
  shows "length (filter (\<lambda>x. f x = Some a) (xs[i := s])) =
     acq (f s) (rel (f (xs ! i)) (\<lambda>a. length (filter (\<lambda>x. f x = Some a) xs))) a"
proof -
  have 1: "xs[i := s] = take i xs @ s # drop (Suc i) xs"
    using assms by (rule upd_conv_take_nth_drop)
  have 2: "xs = take i xs @ xs ! i # drop (Suc i) xs"
    using assms by (rule id_take_nth_drop)
  have "length (filter (\<lambda>x. f x = Some a) xs) =
      length (filter (\<lambda>x. f x = Some a) (take i xs)) +
      (if f (xs ! i) = Some a then 1 else 0) +
      length (filter (\<lambda>x. f x = Some a) (drop (Suc i) xs))"
    by (subst 2) simp
  moreover have "length (filter (\<lambda>x. f x = Some a) (xs[i := s])) =
      length (filter (\<lambda>x. f x = Some a) (take i xs)) +
      (if f s = Some a then 1 else 0) +
      length (filter (\<lambda>x. f x = Some a) (drop (Suc i) xs))"
    by (subst 1) simp
  ultimately show ?thesis
    by (cases "f s"; cases "f (xs ! i)") auto
qed

lemma count_pos:
  assumes "i < length xs" "f (xs ! i) = Some a"
  shows "0 < length (filter (\<lambda>x. f x = Some a) xs)"
proof -
  have "xs ! i \<in> set (filter (\<lambda>x. f x = Some a) xs)" using assms by simp
  then show ?thesis by (rule length_pos_if_in_set)
qed

lemma owners_fun: "owners sps = (\<lambda>a. length (filter (\<lambda>s. control_block s = Some a) sps))"
  by (rule ext) (simp add: owners_def)

lemma weaks_fun: "weaks wps = (\<lambda>a. length (filter (\<lambda>w. wcontrol_block w = Some a) wps))"
  by (rule ext) (simp add: weaks_def)

lemma owners_append [simp]: "owners (sps @ [s]) = acq (control_block s) (owners sps)"
  unfolding owners_fun by (rule ext) (rule count_append)

lemma weaks_append [simp]: "weaks (wps @ [w]) = acq (wcontrol_block w) (weaks wps)"
  unfolding weaks_fun by (rule ext) (rule count_append)

lemma owners_update:
  "i < length sps \<Longrightarrow> owners (sps[i := s]) =
     acq (control_block s) (rel (control_block (sps ! i)) (owners sps))"
  unfolding owners_fun by (rule ext) (rule count_update)

lemma weaks_update:
  "i < length wps \<Longrightarrow> weaks (wps[i := w]) =
     acq (wcontrol_block w) (rel (wcontrol_block (wps ! i)) (weaks wps))"
  unfolding weaks_fun by (rule ext) (rule count_update)

lemma owners_pos: "i < length sps \<Longrightarrow> control_block (sps ! i) = Some a \<Longrightarrow> 0 < owners sps a"
  unfolding owners_fun by (rule count_pos)

lemma weaks_pos: "i < length wps \<Longrightarrow> wcontrol_block (wps ! i) = Some a \<Longrightarrow> 0 < weaks wps a"
  unfolding weaks_fun by (rule count_pos)

lemma owners_le: "owners sps a \<le> length sps"
  by (simp add: owners_def)

lemma weaks_le: "weaks wps a \<le> length wps"
  by (simp add: weaks_def)

lemma acq_rel_cancel:
  assumes "\<And>a. c = Some a \<Longrightarrow> 0 < f a"
  shows "acq c (rel c f) = f"
  using assms by (cases c) (auto simp: fun_eq_iff)

lemma rel_acq_cancel: "rel c (acq c f) = f"
  by (cases c) (auto simp: fun_eq_iff)

lemma rel_acq_commute:
  assumes "\<And>a. c1 = Some a \<Longrightarrow> 0 < f a"
  shows "rel c1 (acq c2 f) = acq c2 (rel c1 f)"
  using assms by (cases c1; cases c2) (auto simp: fun_eq_iff)

lemma acq_default [simp]:
  "acq (control_block SharedPtr_default) f = f" "acq (wcontrol_block WeakPtr_default) f = f"
  by simp_all

lemma WeakPtr_eta: "wcontrol_block w = c \<Longrightarrow> \<lparr>wcontrol_block = c\<rparr> = w"
  by (cases w) simp


lemma outcome_ok_simps [simp]:
  "outcome_ok mx (sps, wps) x (Ok (sps', wps') h') \<longleftrightarrow>
     operands_ok (sps, wps) x \<and> \<not> releases_last (sps, wps) x \<and>
     heap_inv mx h' (owners sps') (weaks wps') \<and>
     length sps' + length wps' \<le> length sps + length wps + 1"
  "outcome_ok mx vs x (Undefined u) \<longleftrightarrow>
     (if operands_ok vs x then releases_last vs x \<and> u = Dangling
      else u = NullDeref \<or> u = NoSuchHandle)"
  "outcome_ok mx vs x (Throw e h') \<longleftrightarrow> False"
  by (simp_all add: outcome_ok_def)

lemma count_bound:
  fixes n m :: nat
  shows "n \<le> m \<Longrightarrow> m + 2 < 2 ^ 64 \<Longrightarrow> n + 1 < 2 ^ 64 \<and> n + 2 < 2 ^ 64"
  by linarith

lemma owners_two:
  assumes "i < length sps" "j < length sps" "i \<noteq> j"
    "control_block (sps ! i) = Some a" "control_block (sps ! j) = Some a"
  shows "2 \<le> owners sps a"
proof -
  let ?s1 = "sps[j := SharedPtr_default]"
  have "owners ?s1 = rel (control_block (sps ! j)) (owners sps)"
    using assms(2) by (simp add: owners_update)
  then have 1: "owners ?s1 a = owners sps a - 1" using assms(5) by simp
  have "0 < owners ?s1 a" using owners_pos [of i ?s1 a] assms(1,3,4) by simp
  with 1 show ?thesis by simp
qed

lemma weaks_two:
  assumes "i < length wps" "j < length wps" "i \<noteq> j"
    "wcontrol_block (wps ! i) = Some a" "wcontrol_block (wps ! j) = Some a"
  shows "2 \<le> weaks wps a"
proof -
  let ?s1 = "wps[j := WeakPtr_default]"
  have "weaks ?s1 = rel (wcontrol_block (wps ! j)) (weaks wps)"
    using assms(2) by (simp add: weaks_update)
  then have 1: "weaks ?s1 a = weaks wps a - 1" using assms(5) by simp
  have "0 < weaks ?s1 a" using weaks_pos [of i ?s1 a] assms(1,3,4) by simp
  with 1 show ?thesis by simp
qed

lemma step_inv_S:
  assumes I: "heap_inv mx h (owners sps) (weaks wps)"
    and L: "length sps + 2 < 2 ^ 64"
  shows "outcome_ok mx (sps, wps) SDefault (step mx SDefault (sps, wps) h)"
    "outcome_ok mx (sps, wps) (SCopy i) (step mx (SCopy i) (sps, wps) h)"
    "outcome_ok mx (sps, wps) (SCopyConv cast i) (step mx (SCopyConv cast i) (sps, wps) h)"
    "outcome_ok mx (sps, wps) (SMove i) (step mx (SMove i) (sps, wps) h)"
    "outcome_ok mx (sps, wps) (SMoveConv cast i) (step mx (SMoveConv cast i) (sps, wps) h)"
    "outcome_ok mx (sps, wps) (SReset i) (step mx (SReset i) (sps, wps) h)"
    "outcome_ok mx (sps, wps) (SDtor i) (step mx (SDtor i) (sps, wps) h)"
proof -
  have B: "\<And>a. owners sps a + 1 < 2 ^ 64"
    using count_bound [OF owners_le L] by simp
  have P: "\<And>a. i < length sps \<Longrightarrow> control_block (sps ! i) = Some a \<Longrightarrow>
      0 < owners sps a \<and> owners sps a + 1 < 2 ^ 64"
    using B owners_pos by blast
  show "outcome_ok mx (sps, wps) SDefault (step mx SDefault (sps, wps) h)"
    using I by simp
  show "outcome_ok mx (sps, wps) (SCopy i) (step mx (SCopy i) (sps, wps) h)"
  proof (cases "i < length sps")
    case True
    from SharedPtr_copy_inv [OF I, of "sps ! i"] P [OF True] obtain h' where
      "SharedPtr_copy (sps ! i) h = Ok (sps ! i) h'"
      "heap_inv mx h' (acq (control_block (sps ! i)) (owners sps)) (weaks wps)"
      by blast
    then show ?thesis using True by simp
  qed simp
  show "outcome_ok mx (sps, wps) (SCopyConv cast i) (step mx (SCopyConv cast i) (sps, wps) h)"
  proof (cases "i < length sps")
    case True
    from SharedPtr_copy_conv_inv [OF I, of "sps ! i" cast] P [OF True] obtain h' where
      "SharedPtr_copy_conv cast (sps ! i) h =
        Ok \<lparr>control_block = control_block (sps ! i),
             pointer = map_option cast (pointer (sps ! i))\<rparr> h'"
      "heap_inv mx h' (acq (control_block (sps ! i)) (owners sps)) (weaks wps)"
      by blast
    then show ?thesis using True by simp
  qed simp
  have M: "i < length sps \<Longrightarrow>
     acq (control_block (sps ! i)) (rel (control_block (sps ! i)) (owners sps)) = owners sps"
    using owners_pos [of i sps] by (intro acq_rel_cancel) simp
  show "outcome_ok mx (sps, wps) (SMove i) (step mx (SMove i) (sps, wps) h)"
    using I M by (cases "i < length sps") (simp_all add: owners_update)
  show "outcome_ok mx (sps, wps) (SMoveConv cast i) (step mx (SMoveConv cast i) (sps, wps) h)"
    using I M by (cases "i < length sps") (simp_all add: owners_update)
  have U: "i < length sps \<Longrightarrow>
       (if sole (control_block (sps ! i)) (owners sps) (weaks wps)
        then unlink_shared_pointer_from_the_control_block (sps ! i) h = Undefined Dangling
        else \<exists>h'. unlink_shared_pointer_from_the_control_block (sps ! i) h =
            Ok (if control_block (sps ! i) = None then sps ! i else SharedPtr_default) h' \<and>
          heap_inv mx h' (rel (control_block (sps ! i)) (owners sps)) (weaks wps))"
    using unlink_shared_inv [OF I, of "sps ! i"] P by blast
  show "outcome_ok mx (sps, wps) (SReset i) (step mx (SReset i) (sps, wps) h)"
  proof (cases "i < length sps")
    case True
    show ?thesis
    proof (cases "sole (control_block (sps ! i)) (owners sps) (weaks wps)")
      case S: True
      with U [OF True] show ?thesis using True by (simp add: SharedPtr_reset_def)
    next
      case S: False
      with U [OF True] obtain h' where
        "unlink_shared_pointer_from_the_control_block (sps ! i) h =
              Ok (if control_block (sps ! i) = None then sps ! i else SharedPtr_default) h'"
        "heap_inv mx h' (rel (control_block (sps ! i)) (owners sps)) (weaks wps)"
        by auto
      then show ?thesis using True S by (auto simp: SharedPtr_reset_def owners_update)
    qed
  qed simp
  show "outcome_ok mx (sps, wps) (SDtor i) (step mx (SDtor i) (sps, wps) h)"
  proof (cases "i < length sps")
    case True
    show ?thesis
    proof (cases "sole (control_block (sps ! i)) (owners sps) (weaks wps)")
      case S: True
      with U [OF True] show ?thesis using True by (simp add: SharedPtr_dtor_def)
    next
      case S: False
      with U [OF True] obtain h' where
        "unlink_shared_pointer_from_the_control_block (sps ! i) h =
              Ok (if control_block (sps ! i) = None then sps ! i else SharedPtr_default) h'"
        "heap_inv mx h' (rel (control_block (sps ! i)) (owners sps)) (weaks wps)"
        by auto
      then show ?thesis using True S by (auto simp: SharedPtr_dtor_def owners_update)
    qed
  qed simp
qed


lemma sole_acq_S:
  assumes "\<And>a. cb = Some a \<Longrightarrow> cb' = Some a \<Longrightarrow> 2 \<le> ns a"
  shows "sole cb (acq cb' ns) nw = sole cb ns nw"
proof (cases cb)
  case None
  then show ?thesis by simp
next
  case (Some a)
  show ?thesis
  proof (cases "cb' = Some a")
    case True
    with assms [OF Some] Some show ?thesis by simp
  next
    case False
    with Some show ?thesis by (cases cb') auto
  qed
qed

lemma sole_acq_W:
  assumes "\<And>a. cb = Some a \<Longrightarrow> cb' = Some a \<Longrightarrow> 2 \<le> ns a + nw a"
  shows "sole cb ns (acq cb' nw) = sole cb ns nw"
proof (cases cb)
  case None
  then show ?thesis by simp
next
  case (Some a)
  show ?thesis
  proof (cases "cb' = Some a")
    case True
    with assms [OF Some] Some show ?thesis by auto
  next
    case False
    with Some show ?thesis by (cases cb') auto
  qed
qed

lemma step_inv_S2:
  assumes I: "heap_inv mx h (owners sps) (weaks wps)"
    and L: "length sps + 2 < 2 ^ 64"
  shows "outcome_ok mx (sps, wps) (SAssignCopy i j) (step mx (SAssignCopy i j) (sps, wps) h)"
    "outcome_ok mx (sps, wps) (SAssignMove i j) (step mx (SAssignMove i j) (sps, wps) h)"
    "outcome_ok mx (sps, wps) (SSwap i j) (step mx (SSwap i j) (sps, wps) h)"
proof -
  have B: "\<And>a. owners sps a + 1 < 2 ^ 64"
    using count_bound [OF owners_le L] by simp
  have P: "\<And>k a. k < length sps \<Longrightarrow> control_block (sps ! k) = Some a \<Longrightarrow>
      0 < owners sps a \<and> owners sps a + 1 < 2 ^ 64"
    using B owners_pos by blast
  show "outcome_ok mx (sps, wps) (SAssignCopy i j) (step mx (SAssignCopy i j) (sps, wps) h)"
  proof (cases "i < length sps \<and> j < length sps")
    case True
    show ?thesis
    proof (cases "i = j")
      case True
      then show ?thesis using I \<open>i < length sps \<and> j < length sps\<close>
        by (simp add: SharedPtr_assign_copy_def)
    next
      case False
      have S: "sole (control_block (sps ! i)) (acq (control_block (sps ! j)) (owners sps)) (weaks wps) =
          sole (control_block (sps ! i)) (owners sps) (weaks wps)"
        using owners_two [of i sps j] True False by (intro sole_acq_S) simp
      note A0 = SharedPtr_assign_copy_inv [OF I, of "sps ! i" "sps ! j"]
      have A1: "if sole (control_block (sps ! i)) (owners sps) (weaks wps)
         then SharedPtr_assign_copy False (sps ! i) (sps ! j) h = Undefined Dangling
         else \<exists>h'. SharedPtr_assign_copy False (sps ! i) (sps ! j) h = Ok (sps ! j) h' \<and>
           heap_inv mx h' (rel (control_block (sps ! i)) (acq (control_block (sps ! j)) (owners sps)))
             (weaks wps)"
        using A0 P True unfolding S by blast
      show ?thesis
      proof (cases "sole (control_block (sps ! i)) (owners sps) (weaks wps)")
        case S1: True
        with A1 show ?thesis using True False by simp
      next
        case S1: False
        with A1 obtain h' where
          A: "SharedPtr_assign_copy False (sps ! i) (sps ! j) h = Ok (sps ! j) h'"
            "heap_inv mx h' (rel (control_block (sps ! i)) (acq (control_block (sps ! j)) (owners sps)))
               (weaks wps)"
          by auto
        have "rel (control_block (sps ! i)) (acq (control_block (sps ! j)) (owners sps)) =
            acq (control_block (sps ! j)) (rel (control_block (sps ! i)) (owners sps))"
          using P True by (intro rel_acq_commute) blast
        then show ?thesis using A True False S1 by (simp add: owners_update)
      qed
    qed
  qed auto
  show "outcome_ok mx (sps, wps) (SAssignMove i j) (step mx (SAssignMove i j) (sps, wps) h)"
  proof (cases "i < length sps \<and> j < length sps")
    case True
    show ?thesis
    proof (cases "i = j")
      case True
      then show ?thesis using I \<open>i < length sps \<and> j < length sps\<close>
        by (simp add: SharedPtr_assign_move_def)
    next
      case False
      note A0 = SharedPtr_assign_move_inv [OF I, of "sps ! i" "sps ! j"]
      have A1: "if sole (control_block (sps ! i)) (owners sps) (weaks wps)
         then SharedPtr_assign_move False (sps ! i) (sps ! j) h = Undefined Dangling
         else \<exists>h'. SharedPtr_assign_move False (sps ! i) (sps ! j) h =
              Ok (sps ! j, SharedPtr_default) h' \<and>
           heap_inv mx h' (rel (control_block (sps ! i)) (owners sps)) (weaks wps)"
        using A0 P True by blast
      show ?thesis
      proof (cases "sole (control_block (sps ! i)) (owners sps) (weaks wps)")
        case S1: True
        with A1 show ?thesis using True False by simp
      next
        case S1: False
        with A1 obtain h' where
          A: "SharedPtr_assign_move False (sps ! i) (sps ! j) h = Ok (sps ! j, SharedPtr_default) h'"
            "heap_inv mx h' (rel (control_block (sps ! i)) (owners sps)) (weaks wps)"
          by auto
        let ?s1 = "sps[j := SharedPtr_default]"
        have o1: "owners ?s1 = rel (control_block (sps ! j)) (owners sps)"
          using True by (simp add: owners_update)
        have p1: "\<And>a. control_block (sps ! i) = Some a \<Longrightarrow> 0 < owners ?s1 a"
          using owners_pos [of i ?s1] True False by simp
        have "owners (?s1[i := sps ! j]) =
            acq (control_block (sps ! j)) (rel (control_block (sps ! i)) (owners ?s1))"
          using True False by (simp add: owners_update)
        also have "\<dots> = rel (control_block (sps ! i)) (acq (control_block (sps ! j)) (owners ?s1))"
          using p1 by (intro rel_acq_commute [symmetric]) blast
        also have "acq (control_block (sps ! j)) (owners ?s1) = owners sps"
          unfolding o1 using P True by (intro acq_rel_cancel) blast
        finally have "owners (?s1[i := sps ! j]) = rel (control_block (sps ! i)) (owners sps)" .
        then show ?thesis using A True False S1 by simp
      qed
    qed
  qed auto
  show "outcome_ok mx (sps, wps) (SSwap i j) (step mx (SSwap i j) (sps, wps) h)"
  proof (cases "i < length sps \<and> j < length sps")
    case True
    let ?s1 = "sps[j := sps ! i]"
    have e: "?s1 ! i = sps ! i" using True by (cases "i = j") simp_all
    have "owners (?s1[i := sps ! j]) =
        acq (control_block (sps ! j)) (rel (control_block (sps ! i)) (owners ?s1))"
      using True e by (simp add: owners_update)
    also have "owners ?s1 =
        acq (control_block (sps ! i)) (rel (control_block (sps ! j)) (owners sps))"
      using True by (simp add: owners_update)
    also have "rel (control_block (sps ! i))
        (acq (control_block (sps ! i)) (rel (control_block (sps ! j)) (owners sps))) =
        rel (control_block (sps ! j)) (owners sps)"
      by (rule rel_acq_cancel)
    also have "acq (control_block (sps ! j)) (rel (control_block (sps ! j)) (owners sps)) =
        owners sps"
      using P True by (intro acq_rel_cancel) blast
    finally have "owners (?s1[i := sps ! j]) = owners sps" .
    then show ?thesis using I True by simp
  qed auto
qed

lemma step_inv_W:
  assumes I: "heap_inv mx h (owners sps) (weaks wps)"
    and L: "length sps + 2 < 2 ^ 64" "length wps + 2 < 2 ^ 64"
  shows "outcome_ok mx (sps, wps) WDefault (step mx WDefault (sps, wps) h)"
    "outcome_ok mx (sps, wps) (WFromShared i) (step mx (WFromShared i) (sps, wps) h)"
    "outcome_ok mx (sps, wps) (WFromSharedMoved i) (step mx (WFromSharedMoved i) (sps, wps) h)"
    "outcome_ok mx (sps, wps) (WCopy i) (step mx (WCopy i) (sps, wps) h)"
    "outcome_ok mx (sps, wps) (WMove i) (step mx (WMove i) (sps, wps) h)"
    "outcome_ok mx (sps, wps) (WReset i) (step mx (WReset i) (sps, wps) h)"
    "outcome_ok mx (sps, wps) (WDtor i) (step mx (WDtor i) (sps, wps) h)"
    "outcome_ok mx (sps, wps) (WLock i) (step mx (WLock i) (sps, wps) h)"
proof -
  have B: "\<And>a. owners sps a + 1 < 2 ^ 64" "\<And>a. owners sps a + 2 < 2 ^ 64"
    using count_bound [OF owners_le L(1)] by simp_all
  have BW: "\<And>a. weaks wps a + 2 < 2 ^ 64"
    using count_bound [OF weaks_le L(2)] by simp
  have P: "\<And>k a. k < length sps \<Longrightarrow> control_block (sps ! k) = Some a \<Longrightarrow>
      0 < owners sps a \<and> owners sps a + 1 < 2 ^ 64"
    using B owners_pos by blast
  have PW: "\<And>k a. k < length wps \<Longrightarrow> wcontrol_block (wps ! k) = Some a \<Longrightarrow> 0 < weaks wps a"
    using weaks_pos by blast
  show "outcome_ok mx (sps, wps) WDefault (step mx WDefault (sps, wps) h)"
    using I by simp
  show "outcome_ok mx (sps, wps) (WFromShared i) (step mx (WFromShared i) (sps, wps) h)"
  proof (cases "i < length sps")
    case True
    show ?thesis
    proof (cases "control_block (sps ! i)")
      case None
      then show ?thesis using True
        by (simp add: SharedPtr_copy_null WeakPtr_from_shared_null)
    next
      case (Some a)
      from SharedPtr_copy_inv [OF I, of "sps ! i"] P [OF True] Some obtain h1 where
        C: "SharedPtr_copy (sps ! i) h = Ok (sps ! i) h1"
           "heap_inv mx h1 ((owners sps)(a := owners sps a + 1)) (weaks wps)"
        by auto
      from WeakPtr_from_shared_inv [OF C(2) Some] BW [of a] obtain h2 where
        F: "WeakPtr_from_shared (sps ! i) h1 = Ok \<lparr>wcontrol_block = Some a\<rparr> h2"
           "heap_inv mx h2 (((owners sps)(a := owners sps a + 1))
               (a := ((owners sps)(a := owners sps a + 1)) a - 1))
             ((weaks wps)(a := weaks wps a + 1))"
        by auto
      have "((owners sps)(a := owners sps a + 1))
               (a := ((owners sps)(a := owners sps a + 1)) a - 1) = owners sps"
        by auto
      with F(2) have "heap_inv mx h2 (owners sps) ((weaks wps)(a := weaks wps a + 1))" by simp
      then show ?thesis using True Some C(1) F(1) by simp
    qed
  qed simp
  show "outcome_ok mx (sps, wps) (WFromSharedMoved i) (step mx (WFromSharedMoved i) (sps, wps) h)"
  proof (cases "i < length sps")
    case True
    show ?thesis
    proof (cases "control_block (sps ! i)")
      case None
      then show ?thesis using True by (simp add: WeakPtr_from_shared_null)
    next
      case (Some a)
      from WeakPtr_from_shared_inv [OF I Some] P [OF True Some] BW [of a] obtain h2 where
        F: "WeakPtr_from_shared (sps ! i) h = Ok \<lparr>wcontrol_block = Some a\<rparr> h2"
           "heap_inv mx h2 ((owners sps)(a := owners sps a - 1))
             ((weaks wps)(a := weaks wps a + 1))"
        by auto
      then show ?thesis using True Some by (simp add: owners_update)
    qed
  qed simp
  show "outcome_ok mx (sps, wps) (WCopy i) (step mx (WCopy i) (sps, wps) h)"
  proof (cases "i < length wps")
    case True
    show ?thesis
    proof (cases "wcontrol_block (wps ! i)")
      case None
      then show ?thesis using True by (simp add: WeakPtr_copy_null)
    next
      case (Some a)
      from WeakPtr_copy_inv [OF I Some PW [OF True Some] BW] obtain h' where
        "WeakPtr_copy (wps ! i) h = Ok \<lparr>wcontrol_block = Some a\<rparr> h'"
        "heap_inv mx h' (owners sps) ((weaks wps)(a := weaks wps a + 1))"
        by blast
      then show ?thesis using True Some by simp
    qed
  qed simp
  have M: "i < length wps \<Longrightarrow>
     acq (wcontrol_block (wps ! i)) (rel (wcontrol_block (wps ! i)) (weaks wps)) = weaks wps"
    using weaks_pos [of i wps] by (intro acq_rel_cancel) simp
  show "outcome_ok mx (sps, wps) (WMove i) (step mx (WMove i) (sps, wps) h)"
    using I M by (cases "i < length wps") (simp_all add: weaks_update)
  have U: "i < length wps \<Longrightarrow>
       (if sole (wcontrol_block (wps ! i)) (owners sps) (weaks wps)
        then unlink_weak_pointer_from_the_control_block (wps ! i) h = Undefined Dangling
        else \<exists>h'. unlink_weak_pointer_from_the_control_block (wps ! i) h =
            Ok (if wcontrol_block (wps ! i) = None then wps ! i else WeakPtr_default) h' \<and>
          heap_inv mx h' (owners sps) (rel (wcontrol_block (wps ! i)) (weaks wps)))"
    using unlink_weak_inv [OF I, of "wps ! i"] PW by blast
  show "outcome_ok mx (sps, wps) (WReset i) (step mx (WReset i) (sps, wps) h)"
  proof (cases "i < length wps")
    case True
    show ?thesis
    proof (cases "sole (wcontrol_block (wps ! i)) (owners sps) (weaks wps)")
      case S: True
      with U [OF True] show ?thesis using True by (simp add: WeakPtr_reset_def)
    next
      case S: False
      with U [OF True] obtain h' where
        "unlink_weak_pointer_from_the_control_block (wps ! i) h =
              Ok (if wcontrol_block (wps ! i) = None then wps ! i else WeakPtr_default) h'"
        "heap_inv mx h' (owners sps) (rel (wcontrol_block (wps ! i)) (weaks wps))"
        by auto
      then show ?thesis using True S by (auto simp: WeakPtr_reset_def weaks_update)
    qed
  qed simp
  show "outcome_ok mx (sps, wps) (WDtor i) (step mx (WDtor i) (sps, wps) h)"
  proof (cases "i < length wps")
    case True
    show ?thesis
    proof (cases "sole (wcontrol_block (wps ! i)) (owners sps) (weaks wps)")
      case S: True
      with U [OF True] show ?thesis using True by (simp add: WeakPtr_dtor_def)
    next
      case S: False
      with U [OF True] obtain h' where
        "unlink_weak_pointer_from_the_control_block (wps ! i) h =
              Ok (if wcontrol_block (wps ! i) = None then wps ! i else WeakPtr_default) h'"
        "heap_inv mx h' (owners sps) (rel (wcontrol_block (wps ! i)) (weaks wps))"
        by auto
      then show ?thesis using True S by (auto simp: WeakPtr_dtor_def weaks_update)
    qed
  qed simp
  show "outcome_ok mx (sps, wps) (WLock i) (step mx (WLock i) (sps, wps) h)"
  proof (cases "i < length wps")
    case True
    have "\<And>a. owners sps a + 2 < 2 ^ 64 \<and> weaks wps a + 2 < 2 ^ 64" using B BW by simp
    have "\<And>a. wcontrol_block (wps ! i) = Some a \<Longrightarrow> 0 < owners sps a \<or> 0 < weaks wps a"
      by (rule disjI2) (rule PW [OF True])
    from lock_inv [OF I, of "wps ! i", OF this \<open>\<And>a. owners sps a + 2 < 2 ^ 64 \<and> weaks wps a + 2 < 2 ^ 64\<close>]
    obtain s h' where
      "lock mx (wps ! i) h = Ok s h'"
      "heap_inv mx h' (acq (control_block s) (owners sps)) (weaks wps)"
      by blast
    then show ?thesis using True by simp
  qed simp
qed

lemma step_inv_W2:
  assumes I: "heap_inv mx h (owners sps) (weaks wps)"
    and L: "length sps + 2 < 2 ^ 64" "length wps + 2 < 2 ^ 64"
  shows "outcome_ok mx (sps, wps) (WAssignCopy i j) (step mx (WAssignCopy i j) (sps, wps) h)"
    "outcome_ok mx (sps, wps) (WAssignShared i j) (step mx (WAssignShared i j) (sps, wps) h)"
    "outcome_ok mx (sps, wps) (WAssignMove i j) (step mx (WAssignMove i j) (sps, wps) h)"
    "outcome_ok mx (sps, wps) (WSwap i j) (step mx (WSwap i j) (sps, wps) h)"
proof -
  have B: "\<And>a. owners sps a + 1 < 2 ^ 64"
    using count_bound [OF owners_le L(1)] by simp
  have BW: "\<And>a. weaks wps a + 2 < 2 ^ 64"
    using count_bound [OF weaks_le L(2)] by simp
  have P: "\<And>k a. k < length sps \<Longrightarrow> control_block (sps ! k) = Some a \<Longrightarrow> 0 < owners sps a"
    using owners_pos by blast
  have PW: "\<And>k a. k < length wps \<Longrightarrow> wcontrol_block (wps ! k) = Some a \<Longrightarrow> 0 < weaks wps a"
    using weaks_pos by blast
  show "outcome_ok mx (sps, wps) (WAssignCopy i j) (step mx (WAssignCopy i j) (sps, wps) h)"
  proof (cases "i < length wps \<and> j < length wps")
    case True
    show ?thesis
    proof (cases "i = j")
      case True
      then show ?thesis using I \<open>i < length wps \<and> j < length wps\<close>
        by (simp add: WeakPtr_assign_copy_def)
    next
      case False
      show ?thesis
      proof (cases "wcontrol_block (wps ! j)")
        case None
        then show ?thesis using True False by (simp add: WeakPtr_assign_copy_null)
      next
        case (Some b)
        have pi: "\<And>a. wcontrol_block (wps ! i) = Some a \<Longrightarrow> 0 < weaks wps a"
          using PW True by blast
        have pb: "0 < weaks wps b" using PW True Some by blast
        have S: "sole (wcontrol_block (wps ! i)) (owners sps) (acq (Some b) (weaks wps)) =
            sole (wcontrol_block (wps ! i)) (owners sps) (weaks wps)"
          using weaks_two [of i wps j] True False Some by (intro sole_acq_W) simp
        note A0 = WeakPtr_assign_copy_inv [where this = "wps ! i", OF I pi Some pb BW]
        show ?thesis
        proof (cases "sole (wcontrol_block (wps ! i)) (owners sps) (weaks wps)")
          case S1: True
          with A0 S show ?thesis using True False Some by simp
        next
          case S1: False
          with A0 S obtain h' where
            A: "WeakPtr_assign_copy False (wps ! i) (wps ! j) h = Ok \<lparr>wcontrol_block = Some b\<rparr> h'"
              "heap_inv mx h' (owners sps)
                 (rel (wcontrol_block (wps ! i)) ((weaks wps)(b := weaks wps b + 1)))"
            by auto
          have "rel (wcontrol_block (wps ! i)) (acq (Some b) (weaks wps)) =
              acq (Some b) (rel (wcontrol_block (wps ! i)) (weaks wps))"
            using PW True by (intro rel_acq_commute) blast
          then show ?thesis using A True False Some S1 by (simp add: weaks_update)
        qed
      qed
    qed
  qed auto
  show "outcome_ok mx (sps, wps) (WAssignShared i j) (step mx (WAssignShared i j) (sps, wps) h)"
  proof (cases "i < length wps \<and> j < length sps")
    case True
    show ?thesis
    proof (cases "control_block (sps ! j)")
      case None
      then show ?thesis using True by (simp add: WeakPtr_assign_shared_null)
    next
      case (Some b)
      have pi: "\<And>a. wcontrol_block (wps ! i) = Some a \<Longrightarrow> 0 < weaks wps a"
        using PW True by blast
      have pb: "0 < owners sps b" using P True Some by blast
      have S: "sole (wcontrol_block (wps ! i)) (owners sps) (acq (Some b) (weaks wps)) =
          sole (wcontrol_block (wps ! i)) (owners sps) (weaks wps)"
      proof (intro sole_acq_W)
        fix a assume "wcontrol_block (wps ! i) = Some a" "Some b = Some a"
        then show "2 \<le> owners sps a + weaks wps a" using pi [of a] pb by simp
      qed
      note A0 = WeakPtr_assign_shared_inv [where this = "wps ! i", OF I pi Some pb B BW]
      show ?thesis
      proof (cases "sole (wcontrol_block (wps ! i)) (owners sps) (weaks wps)")
        case S1: True
        with A0 S show ?thesis using True Some by simp
      next
        case S1: False
        with A0 S obtain h' where
          A: "WeakPtr_assign_shared (wps ! i) (sps ! j) h = Ok \<lparr>wcontrol_block = Some b\<rparr> h'"
            "heap_inv mx h' (owners sps)
               (rel (wcontrol_block (wps ! i)) ((weaks wps)(b := weaks wps b + 1)))"
          by auto
        have "rel (wcontrol_block (wps ! i)) (acq (Some b) (weaks wps)) =
            acq (Some b) (rel (wcontrol_block (wps ! i)) (weaks wps))"
          using PW True by (intro rel_acq_commute) blast
        then show ?thesis using A True Some S1 by (simp add: weaks_update)
      qed
    qed
  qed auto
  show "outcome_ok mx (sps, wps) (WAssignMove i j) (step mx (WAssignMove i j) (sps, wps) h)"
  proof (cases "i < length wps \<and> j < length wps")
    case True
    show ?thesis
    proof (cases "i = j")
      case True
      then show ?thesis using I \<open>i < length wps \<and> j < length wps\<close>
        by (simp add: WeakPtr_assign_move_def)
    next
      case False
      have pi: "\<And>a. wcontrol_block (wps ! i) = Some a \<Longrightarrow> 0 < weaks wps a"
        using PW True by blast
      note A0 = WeakPtr_assign_move_inv [of mx h "owners sps" "weaks wps" "wps ! i" "wps ! j", OF I pi]
      show ?thesis
      proof (cases "sole (wcontrol_block (wps ! i)) (owners sps) (weaks wps)")
        case S1: True
        with A0 show ?thesis using True False by simp
      next
        case S1: False
        with A0 obtain h' where
          A: "WeakPtr_assign_move False (wps ! i) (wps ! j) h = Ok (wps ! j, WeakPtr_default) h'"
            "heap_inv mx h' (owners sps) (rel (wcontrol_block (wps ! i)) (weaks wps))"
          by auto
        let ?s1 = "wps[j := WeakPtr_default]"
        have o1: "weaks ?s1 = rel (wcontrol_block (wps ! j)) (weaks wps)"
          using True by (simp add: weaks_update)
        have p1: "\<And>a. wcontrol_block (wps ! i) = Some a \<Longrightarrow> 0 < weaks ?s1 a"
          using weaks_pos [of i ?s1] True False by simp
        have "weaks (?s1[i := wps ! j]) =
            acq (wcontrol_block (wps ! j)) (rel (wcontrol_block (wps ! i)) (weaks ?s1))"
          using True False by (simp add: weaks_update)
        also have "\<dots> = rel (wcontrol_block (wps ! i)) (acq (wcontrol_block (wps ! j)) (weaks ?s1))"
          using p1 by (intro rel_acq_commute [symmetric]) blast
        also have "acq (wcontrol_block (wps ! j)) (weaks ?s1) = weaks wps"
          unfolding o1 using PW True by (intro acq_rel_cancel) blast
        finally have "weaks (?s1[i := wps ! j]) = rel (wcontrol_block (wps ! i)) (weaks wps)" .
        then show ?thesis using A True False S1 by simp
      qed
    qed
  qed auto
  show "outcome_ok mx (sps, wps) (WSwap i j) (step mx (WSwap i j) (sps, wps) h)"
  proof (cases "i < length wps \<and> j < length wps")
    case True
    let ?s1 = "wps[j := wps ! i]"
    have e: "?s1 ! i = wps ! i" using True by (cases "i = j") simp_all
    have "weaks (?s1[i := wps ! j]) =
        acq (wcontrol_block (wps ! j)) (rel (wcontrol_block (wps ! i)) (weaks ?s1))"
      using True e by (simp add: weaks_update)
    also have "weaks ?s1 =
        acq (wcontrol_block (wps ! i)) (rel (wcontrol_block (wps ! j)) (weaks wps))"
      using True by (simp add: weaks_update)
    also have "rel (wcontrol_block (wps ! i))
        (acq (wcontrol_block (wps ! i)) (rel (wcontrol_block (wps ! j)) (weaks wps))) =
        rel (wcontrol_block (wps ! j)) (weaks wps)"
      by (rule rel_acq_cancel)
    also have "acq (wcontrol_block (wps ! j)) (rel (wcontrol_block (wps ! j)) (weaks wps)) =
        weaks wps"
      using PW True by (intro acq_rel_cancel) blast
    finally have "weaks (?s1[i := wps ! j]) = weaks wps" .
    then show ?thesis using I True by simp
  qed auto
qed

lemma step_inv:
  assumes "heap_inv mx h (owners sps) (weaks wps)" "handle_op x"
    "length sps + 2 < 2 ^ 64" "length wps + 2 < 2 ^ 64"
  shows "outcome_ok mx (sps, wps) x (step mx x (sps, wps) h)"
  using assms(2) step_inv_S [OF assms(1,3)] step_inv_S2 [OF assms(1,3)]
    step_inv_W [OF assms(1,3,4)] step_inv_W2 [OF assms(1,3,4)]
  by (cases x) simp_all

lemma step_shape:
  assumes "step mx x (sps, wps) h = Ok vs' h'" "handle_op x"
  shows "shape h' = shape h"
proof (cases x)
  case (SCopy i)
  then show ?thesis using assms
    by (auto simp: then_do_Ok split: if_splits dest!: SharedPtr_copy_Ok)
next
  case (SCopyConv cast i)
  then show ?thesis using assms
    by (auto simp: then_do_Ok split: if_splits dest!: SharedPtr_copy_conv_Ok)
next
  case (SAssignCopy i j)
  then show ?thesis using assms
    by (auto simp: then_do_Ok split: if_splits dest!: SharedPtr_assign_copy_Ok)
next
  case (SAssignMove i j)
  then show ?thesis using assms
    by (auto simp: then_do_Ok split: if_splits dest!: SharedPtr_assign_move_Ok)
next
  case (SReset i)
  then show ?thesis using assms
    by (auto simp: then_do_Ok split: if_splits dest!: SharedPtr_dtor_Ok [OF disjI2])
next
  case (SDtor i)
  then show ?thesis using assms
    by (auto simp: then_do_Ok split: if_splits dest!: SharedPtr_dtor_Ok [OF disjI1])
next
  case (WFromShared i)
  then show ?thesis using assms
    by (auto simp: then_do_Ok split: if_splits dest!: SharedPtr_copy_Ok WeakPtr_from_shared_shape)
next
  case (WFromSharedMoved i)
  then show ?thesis using assms
    by (auto simp: then_do_Ok split: if_splits dest!: WeakPtr_from_shared_shape)
next
  case (WCopy i)
  then show ?thesis using assms
    by (auto simp: then_do_Ok split: if_splits dest!: WeakPtr_copy_shape)
next
  case (WAssignCopy i j)
  then show ?thesis using assms
    by (auto simp: then_do_Ok split: if_splits dest!: WeakPtr_assign_shape [OF disjI1])
next
  case (WAssignShared i j)
  then show ?thesis using assms
    by (auto simp: then_do_Ok split: if_splits dest!: WeakPtr_assign_shape [OF disjI2])
next
  case (WAssignMove i j)
  then show ?thesis using assms
    by (auto simp: then_do_Ok split: if_splits dest!: WeakPtr_assign_move_shape)
next
  case (WReset i)
  then show ?thesis using assms
    by (auto simp: then_do_Ok split: if_splits dest!: WeakPtr_dtor_shape [OF disjI2])
next
  case (WDtor i)
  then show ?thesis using assms
    by (auto simp: then_do_Ok split: if_splits dest!: WeakPtr_dtor_shape [OF disjI1])
next
  case (WLock i)
  then show ?thesis using assms
    by (auto simp: then_do_Ok split: if_splits dest!: lock_Ok)
qed (use assms in \<open>auto split: if_splits\<close>)

lemma heap_inv_counts:
  assumes "heap_inv mx h ns nw" "blocks h a = Some blk"
  shows "length (destroyed_at blk) = (if ns a = 0 then 1 else 0) \<and>
         dealloc_calls blk = 0 \<and> (0 < ns a \<or> 0 < nw a) \<and>
         unat (shared_count blk) = ns a"
  using heap_inv_block [OF assms] by (auto simp: block_inv_def split: if_splits)

lemma shape_dom: "shape h' = shape h \<Longrightarrow> blocks h a = Some blk \<Longrightarrow> \<exists>blk'. blocks h' a = Some blk'"
proof -
  assume "shape h' = shape h" "blocks h a = Some blk"
  then have "shape h' a = Some (variant blk)" by (simp add: shape_def)
  then show ?thesis by (cases "blocks h' a") (simp_all add: shape_def)
qed

lemma heap_inv_fresh_embedded:
  assumes "heap_inv mx h (owners sps) (weaks wps)" "blocks h a = None"
    "objs h (obj_addr a) = None"
  shows "\<exists>s h'. makeShared mx (Some a) True h = Ok s h' \<and>
           heap_inv mx h' (owners (sps @ [s])) (weaks wps)"
proof -
  let ?s = "\<lparr>control_block = Some a, pointer = Some (obj_addr a)\<rparr>"
  have z: "owners sps a = 0" "weaks wps a = 0"
    using heap_inv_at [OF assms(1), of a] assms(2) by simp_all
  show ?thesis
  proof (cases mx)
    case False
    let ?h = "put a ((BaseControlBlock Embeded)\<lparr>shared_count := 1\<rparr>) h"
    have "heap_inv mx ?h ((owners sps)(a := owners sps a + 1)) (weaks wps)"
    proof (rule heap_inv_frame [OF assms(1), where a = a])
      fix b assume "b \<noteq> a"
      then show "blocks ?h b = blocks h b \<and> objs ?h (obj_addr b) = objs h (obj_addr b) \<and>
        ((owners sps)(a := owners sps a + 1)) b = owners sps b \<and> weaks wps b = weaks wps b"
        by simp
    next
      show "case blocks ?h a of
          None \<Rightarrow> ((owners sps)(a := owners sps a + 1)) a = 0 \<and> weaks wps a = 0
        | Some blk \<Rightarrow> block_inv mx ?h a blk (((owners sps)(a := owners sps a + 1)) a) (weaks wps a)"
        using z assms(3) False
        by (simp add: block_inv_def BaseControlBlock_def weak_this_ok_def self_weak_def)
    qed
    then show ?thesis using False by (simp add: makeShared_plain)
  next
    case True
    let ?h = "h\<lparr>blocks := (blocks h)(a \<mapsto> (BaseControlBlock Embeded)\<lparr>shared_count := 1, weak_count := 1\<rparr>),
           objs := (objs h)(obj_addr a \<mapsto> \<lparr>wcontrol_block = Some a\<rparr>)\<rparr>"
    have "heap_inv mx ?h ((owners sps)(a := owners sps a + 1)) (weaks wps)"
    proof (rule heap_inv_frame [OF assms(1), where a = a])
      fix b assume "b \<noteq> a"
      then show "blocks ?h b = blocks h b \<and> objs ?h (obj_addr b) = objs h (obj_addr b) \<and>
        ((owners sps)(a := owners sps a + 1)) b = owners sps b \<and> weaks wps b = weaks wps b"
        by simp
    next
      show "case blocks ?h a of
          None \<Rightarrow> ((owners sps)(a := owners sps a + 1)) a = 0 \<and> weaks wps a = 0
        | Some blk \<Rightarrow> block_inv mx ?h a blk (((owners sps)(a := owners sps a + 1)) a) (weaks wps a)"
        using z
        by (simp add: block_inv_def BaseControlBlock_def weak_this_ok_def self_weak_def)
    qed
    then show ?thesis using True by (simp add: makeShared_mixin)
  qed
qed

lemma heap_inv_fresh_external:
  assumes "heap_inv False h (owners sps) (weaks wps)" "blocks h a = None"
    "objs h (obj_addr a) = None"
  shows "\<exists>s h'. SharedPtr_from_pointer False p (Some a) h = Ok s h' \<and>
           heap_inv False h' (owners (sps @ [s])) (weaks wps)"
proof -
  have z: "owners sps a = 0" "weaks wps a = 0"
    using heap_inv_at [OF assms(1), of a] assms(2) by simp_all
  let ?h = "put a ((BaseControlBlock (FromPointer p))\<lparr>shared_count := 1\<rparr>) h"
  have "heap_inv False ?h ((owners sps)(a := owners sps a + 1)) (weaks wps)"
  proof (rule heap_inv_frame [OF assms(1), where a = a])
    fix b assume "b \<noteq> a"
    then show "blocks ?h b = blocks h b \<and> objs ?h (obj_addr b) = objs h (obj_addr b) \<and>
      ((owners sps)(a := owners sps a + 1)) b = owners sps b \<and> weaks wps b = weaks wps b"
      by simp
  next
    show "case blocks ?h a of
        None \<Rightarrow> ((owners sps)(a := owners sps a + 1)) a = 0 \<and> weaks wps a = 0
      | Some blk \<Rightarrow> block_inv False ?h a blk (((owners sps)(a := owners sps a + 1)) a) (weaks wps a)"
      using z assms(3)
      by (simp add: block_inv_def BaseControlBlock_def weak_this_ok_def self_weak_def)
  qed
  then show ?thesis by (simp add: SharedPtr_from_pointer_plain)
qed

lemma heap_inv_empty: "heap_inv mx heap0 (owners []) (weaks [])"
  by (simp add: heap_inv_def heap0_def owners_def weaks_def)

lemma grows_refl [simp]: "grows h h"
  by (simp add: grows_def)

lemma grows_trans: "grows h h1 \<Longrightarrow> grows h1 h2 \<Longrightarrow> grows h h2"
  unfolding grows_def by (meson order_trans)

lemma grows_put:
  "live h a blk \<Longrightarrow> length (destroyed_at blk) \<le> length (destroyed_at blk') \<Longrightarrow>
     grows h (put a blk' h)"
  by (auto simp: grows_def live_def put_def)

lemma grows_objs [simp]: "grows h (h\<lparr>objs := x\<rparr>)"
  by (simp add: grows_def)

lemma unlink_weak_grows:
  assumes "unlink_weak_pointer_from_the_control_block w h = Ok w' h'"
  shows "grows h h'"
proof (cases "wcontrol_block w")
  case None
  then show ?thesis using assms by simp
next
  case (Some a)
  with assms obtain blk where L: "live h a blk"
    by (auto simp: unlink_weak_pointer_from_the_control_block_def then_do_Ok deref_Ok)
  from unlink_weak_live [OF L Some] assms L show ?thesis
    by (auto intro!: grows_put split: if_splits)
qed

lemma destroy_object_grows:
  assumes "destroy_object a h = Ok u h'"
  shows "grows h h'"
proof -
  from assms obtain blk where L: "live h a blk"
    by (auto simp: destroy_object_def then_do_Ok deref_Ok)
  let ?h2 = "put a (blk\<lparr>destroyed_at := destroyed_at blk @ [shared_count blk]\<rparr>) h"
  have G2: "grows h ?h2" using L by (auto intro!: grows_put)
  show ?thesis
  proof (cases "variant blk")
    case (FromPointer p)
    then show ?thesis using assms L G2 by (simp add: destroy_object_def)
  next
    case Embeded
    show ?thesis
    proof (cases "objs h (obj_addr a)")
      case None
      then show ?thesis using assms L G2 Embeded by (simp add: destroy_object_def)
    next
      case (Some w)
      with assms L Embeded obtain w' h3 where
        U: "unlink_weak_pointer_from_the_control_block w ?h2 = Ok w' h3"
           "h' = h3\<lparr>objs := (objs h3)(obj_addr a := None)\<rparr>"
        by (auto simp: destroy_object_def then_do_Ok)
      from unlink_weak_grows [OF U(1)] have "grows ?h2 h3" .
      then have "grows ?h2 h'" using U(2) grows_trans [of ?h2 h3 h'] by simp
      with G2 show ?thesis by (rule grows_trans)
    qed
  qed
qed

lemma destroy_block_not_Ok [simp]: "destroy_block a h \<noteq> Ok u h'"
  by (auto simp: destroy_block_def deref_def then_do_def split: option.splits result.splits)

lemma unlink_shared_grows:
  assumes "unlink_shared_pointer_from_the_control_block sp h = Ok sp' h'"
  shows "grows h h'"
proof (cases "control_block sp")
  case None
  then show ?thesis using assms by simp
next
  case (Some a)
  with assms obtain blk where L: "live h a blk"
    by (auto simp: unlink_shared_pointer_from_the_control_block_def then_do_Ok deref_Ok)
  show ?thesis
  proof (cases "1 < shared_count blk")
    case True
    from unlink_shared_not_last [OF L True Some] assms L show ?thesis
      by (auto intro!: grows_put)
  next
    case False
    with assms L Some obtain h2 blk2 where
      D: "destroy_object a h = Ok () h2" "live h2 a blk2"
         "h' = put a (blk2\<lparr>shared_count := shared_count blk2 - 1\<rparr>) h2"
      by (auto simp: unlink_shared_pointer_from_the_control_block_def then_do_Ok deref_Ok Let_def
          split: if_splits)
    have "grows h2 h'" using D(2,3) by (auto intro!: grows_put)
    with destroy_object_grows [OF D(1)] show ?thesis by (rule grows_trans)
  qed
qed

lemma grows_inc:
  "live h a blk \<Longrightarrow> destroyed_at blk' = destroyed_at blk \<Longrightarrow> grows h (put a blk' h)"
  using grows_put [of h a blk blk'] by simp

lemma SharedPtr_copy_grows:
  assumes "SharedPtr_copy sp h = Ok s h' \<or> SharedPtr_copy_conv cast sp h = Ok s h'"
  shows "grows h h'"
  using assms
  by (auto simp: SharedPtr_copy_def SharedPtr_copy_conv_def then_do_Ok deref_Ok Let_def
      split: option.splits prod.splits intro!: grows_inc)

lemma SharedPtr_dtor_grows:
  assumes "SharedPtr_dtor sp h = Ok sp' h' \<or> SharedPtr_reset sp h = Ok sp' h'"
  shows "grows h h'"
  using assms unlink_shared_grows [of sp h sp' h']
  by (auto simp: SharedPtr_dtor_def SharedPtr_reset_def)

lemma SharedPtr_assign_copy_grows:
  assumes "SharedPtr_assign_copy same this other h = Ok t h'"
  shows "grows h h'"
  using assms
  by (auto simp: SharedPtr_assign_copy_def SharedPtr_assign_copy_tmpl_def then_do_Ok
      split: if_splits dest!: SharedPtr_copy_grows [OF disjI1] unlink_shared_grows
      intro: grows_trans)

lemma SharedPtr_assign_move_grows:
  assumes "SharedPtr_assign_move same this other h = Ok (t, o') h'"
  shows "grows h h'"
  using assms
  by (auto simp: SharedPtr_assign_move_def SharedPtr_assign_move_tmpl_def then_do_Ok
      split: if_splits dest!: unlink_shared_grows)

lemma WeakPtr_dtor_grows:
  assumes "WeakPtr_dtor w h = Ok w' h' \<or> WeakPtr_reset w h = Ok w' h'"
  shows "grows h h'"
  using assms unlink_weak_grows [of w h w' h']
  by (auto simp: WeakPtr_dtor_def WeakPtr_reset_def)

lemma WeakPtr_from_shared_grows:
  assumes "WeakPtr_from_shared sp h = Ok w h'"
  shows "grows h h'"
proof -
  from assms obtain a blk sp' where
    L: "live h a blk"
       "SharedPtr_dtor sp (put a (blk\<lparr>weak_count := weak_count blk + 1\<rparr>) h) = Ok sp' h'"
    by (auto simp: WeakPtr_from_shared_def then_do_Ok deref_Ok Let_def split: prod.splits)
  have "grows h (put a (blk\<lparr>weak_count := weak_count blk + 1\<rparr>) h)"
    using L(1) by (auto intro!: grows_inc)
  with SharedPtr_dtor_grows [OF disjI1, OF L(2)] show ?thesis
    using grows_trans by blast
qed

lemma WeakPtr_copy_grows:
  assumes "WeakPtr_copy w h = Ok w' h'"
  shows "grows h h'"
  using assms
  by (auto simp: WeakPtr_copy_def then_do_Ok deref_Ok Let_def
      split: prod.splits intro!: grows_inc)

lemma WeakPtr_assign_grows:
  assumes "WeakPtr_assign_copy same this w h = Ok t h' \<or>
           WeakPtr_assign_shared this sp h = Ok t h'"
  shows "grows h h'"
  using assms
  by (auto simp: WeakPtr_assign_copy_def WeakPtr_assign_copy_tmpl_def
      WeakPtr_assign_shared_def then_do_Ok
      split: if_splits
      dest!: WeakPtr_copy_grows WeakPtr_dtor_grows [OF disjI1] WeakPtr_from_shared_grows
        SharedPtr_copy_grows [OF disjI1]
      intro: grows_trans)

lemma WeakPtr_assign_move_grows:
  assumes "WeakPtr_assign_move same this w h = Ok t h'"
  shows "grows h h'"
  using assms
  by (auto simp: WeakPtr_assign_move_def WeakPtr_assign_move_tmpl_def then_do_Ok
      split: if_splits dest!: WeakPtr_dtor_grows [OF disjI1])

lemma SharedPtr_priv_grows:
  assumes "SharedPtr_priv mx ptr cb h = Ok s h'"
  shows "grows h h'"
proof -
  from assms obtain a blk where L: "cb = Some a" "live h a blk"
    by (auto simp: SharedPtr_priv_def then_do_Ok deref_Ok)
  let ?h2 = "put a (blk\<lparr>shared_count := shared_count blk + 1\<rparr>) h"
  have S2: "grows h ?h2" using L by (auto intro!: grows_inc)
  show ?thesis
  proof (cases mx)
    case False
    then show ?thesis using assms L S2 by (simp add: SharedPtr_priv_def)
  next
    case True
    then obtain p wt where P: "ptr = Some p" "objs h p = Some wt"
      using assms L by (auto simp: SharedPtr_priv_def Let_def split: option.splits)
    with True assms L obtain wt' h3 where
      W: "WeakPtr_assign_shared wt \<lparr>control_block = cb, pointer = ptr\<rparr> ?h2 = Ok wt' h3"
         "h' = h3\<lparr>objs := (objs h3)(p \<mapsto> wt')\<rparr>"
      by (auto simp: SharedPtr_priv_def then_do_Ok Let_def)
    from W(1) have "grows ?h2 h3" using WeakPtr_assign_grows by blast
    then have "grows ?h2 h'" using W(2) grows_trans [of ?h2 h3 h'] by simp
    with S2 show ?thesis by (rule grows_trans)
  qed
qed

lemma lock_grows:
  assumes "lock mx w h = Ok s h'"
  shows "grows h h'"
  using assms
  by (auto simp: lock_def then_do_Ok deref_Ok expired_def
      split: option.splits if_splits prod.splits dest!: SharedPtr_priv_grows)

lemma step_grows:
  assumes "step mx x (sps, wps) h = Ok vs' h'" "handle_op x"
  shows "grows h h'"
proof (cases x)
  case (SCopy i)
  then show ?thesis using assms
    by (auto simp: then_do_Ok split: if_splits dest!: SharedPtr_copy_grows [OF disjI1])
next
  case (SCopyConv cast i)
  then show ?thesis using assms
    by (auto simp: then_do_Ok split: if_splits dest!: SharedPtr_copy_grows [OF disjI2])
next
  case (SAssignCopy i j)
  then show ?thesis using assms
    by (auto simp: then_do_Ok split: if_splits dest!: SharedPtr_assign_copy_grows)
next
  case (SAssignMove i j)
  then show ?thesis using assms
    by (auto simp: then_do_Ok split: if_splits dest!: SharedPtr_assign_move_grows)
next
  case (SReset i)
  then show ?thesis using assms
    by (auto simp: then_do_Ok split: if_splits dest!: SharedPtr_dtor_grows [OF disjI2])
next
  case (SDtor i)
  then show ?thesis using assms
    by (auto simp: then_do_Ok split: if_splits dest!: SharedPtr_dtor_grows [OF disjI1])
next
  case (WFromShared i)
  then show ?thesis using assms
    by (auto simp: then_do_Ok split: if_splits
        dest!: SharedPtr_copy_grows [OF disjI1] WeakPtr_from_shared_grows intro: grows_trans)
next
  case (WFromSharedMoved i)
  then show ?thesis using assms
    by (auto simp: then_do_Ok split: if_splits dest!: WeakPtr_from_shared_grows)
next
  case (WCopy i)
  then show ?thesis using assms
    by (auto simp: then_do_Ok split: if_splits dest!: WeakPtr_copy_grows)
next
  case (WAssignCopy i j)
  then show ?thesis using assms
    by (auto simp: then_do_Ok split: if_splits dest!: WeakPtr_assign_grows [OF disjI1])
next
  case (WAssignShared i j)
  then show ?thesis using assms
    by (auto simp: then_do_Ok split: if_splits dest!: WeakPtr_assign_grows [OF disjI2])
next
  case (WAssignMove i j)
  then show ?thesis using assms
    by (auto simp: then_do_Ok split: if_splits dest!: WeakPtr_assign_move_grows)
next
  case (WReset i)
  then show ?thesis using assms
    by (auto simp: then_do_Ok split: if_splits dest!: WeakPtr_dtor_grows [OF disjI2])
next
  case (WDtor i)
  then show ?thesis using assms
    by (auto simp: then_do_Ok split: if_splits dest!: WeakPtr_dtor_grows [OF disjI1])
next
  case (WLock i)
  then show ?thesis using assms
    by (auto simp: then_do_Ok split: if_splits dest!: lock_grows)
qed (use assms in \<open>auto split: if_splits\<close>)



lemma run_append:
  "run mx (ys @ zs) vs h = then_do (run mx ys vs h) (\<lambda>vs1 h1. run mx zs vs1 h1)"
proof (induction ys arbitrary: vs h)
  case Nil
  show ?case by simp
next
  case (Cons y ys)
  show ?case by (cases "step mx y vs h") (simp_all add: Cons.IH)
qed

lemma run_lifetime:
  "heap_inv mx h (owners sps) (weaks wps) \<Longrightarrow> list_all handle_op xs \<Longrightarrow>
     length sps + length wps + length xs + 2 < 2 ^ 64 \<Longrightarrow>
     (case run mx xs (sps, wps) h of
        Ok vs' h' \<Rightarrow> heap_inv mx h' (owners (fst vs')) (weaks (snd vs')) \<and> grows h h'
      | Throw e h' \<Rightarrow> False
      | Undefined u \<Rightarrow>
          (\<exists>ys x zs vs1 h1. xs = ys @ x # zs \<and> run mx ys (sps, wps) h = Ok vs1 h1 \<and>
             (if operands_ok vs1 x then releases_last vs1 x \<and> u = Dangling
              else u = NullDeref \<or> u = NoSuchHandle)))"
proof (induction xs arbitrary: sps wps h)
  case Nil
  then show ?case by simp
next
  case (Cons x xs)
  have L: "length sps + 2 < 2 ^ 64" "length wps + 2 < 2 ^ 64" using Cons.prems(3) by simp_all
  have X: "handle_op x" using Cons.prems(2) by simp
  have O: "outcome_ok mx (sps, wps) x (step mx x (sps, wps) h)"
    using step_inv [OF Cons.prems(1) X L] .
  show ?case
  proof (cases "step mx x (sps, wps) h")
    case (Ok vs1 h1)
    obtain sps1 wps1 where V: "vs1 = (sps1, wps1)" by (cases vs1)
    from O Ok V have I1: "heap_inv mx h1 (owners sps1) (weaks wps1)"
      and L1: "length sps1 + length wps1 \<le> length sps + length wps + 1"
      by simp_all
    have G1: "grows h h1" using step_grows [of mx x sps wps h vs1 h1] Ok X by simp
    have B1: "length sps1 + length wps1 + length xs + 2 < 2 ^ 64"
      using L1 Cons.prems(3) by simp
    have A1: "list_all handle_op xs" using Cons.prems(2) by simp
    note IH = Cons.IH [OF I1 A1 B1]
    have R: "run mx (x # xs) (sps, wps) h = run mx xs (sps1, wps1) h1" using Ok V by simp
    show ?thesis
    proof (cases "run mx xs (sps1, wps1) h1")
      case (Ok vs' h')
      with IH have "heap_inv mx h' (owners (fst vs')) (weaks (snd vs'))" "grows h1 h'"
        by simp_all
      with G1 grows_trans [of h h1 h'] R Ok show ?thesis by simp
    next
      case (Throw e h')
      with IH show ?thesis by simp
    next
      case (Undefined u)
      with IH obtain ys y zs vs2 h2 where
        U: "xs = ys @ y # zs" "run mx ys (sps1, wps1) h1 = Ok vs2 h2"
           "if operands_ok vs2 y then releases_last vs2 y \<and> u = Dangling
            else u = NullDeref \<or> u = NoSuchHandle"
        by auto
      have "x # xs = (x # ys) @ y # zs" using U(1) by simp
      moreover have "run mx (x # ys) (sps, wps) h = Ok vs2 h2"
        using \<open>step mx x (sps, wps) h = Ok vs1 h1\<close> V U(2) by simp
      ultimately have "\<exists>ys' x' zs' vs1 h1. x # xs = ys' @ x' # zs' \<and>
          run mx ys' (sps, wps) h = Ok vs1 h1 \<and>
          (if operands_ok vs1 x' then releases_last vs1 x' \<and> u = Dangling
           else u = NullDeref \<or> u = NoSuchHandle)"
        using U(3) by blast
      with R Undefined show ?thesis by simp
    qed
  next
    case (Throw e h1)
    with O show ?thesis by simp
  next
    case (Undefined u)
    with O have u: "if operands_ok (sps, wps) x then releases_last (sps, wps) x \<and> u = Dangling
        else u = NullDeref \<or> u = NoSuchHandle"
      by simp
    moreover have "x # xs = [] @ x # xs" "run mx [] (sps, wps) h = Ok (sps, wps) h" by simp_all
    ultimately have "\<exists>ys' x' zs' vs1 h1. x # xs = ys' @ x' # zs' \<and>
          run mx ys' (sps, wps) h = Ok vs1 h1 \<and>
          (if operands_ok vs1 x' then releases_last vs1 x' \<and> u = Dangling
           else u = NullDeref \<or> u = NoSuchHandle)"
      by blast
    with Undefined show ?thesis by simp
  qed
qed

lemma factory_inv:
  assumes "heap_inv mx h (owners sps) (weaks wps) \<or>
     (sps = [s] \<and> wps = [] \<and> makeShared mx (Some a0) True heap0 = Ok s h) \<or>
     (\<not> mx \<and> sps = [s] \<and> wps = [] \<and> SharedPtr_from_pointer mx p (Some a0) heap0 = Ok s h)"
  shows "heap_inv mx h (owners sps) (weaks wps)"
proof -
  have E: "blocks heap0 a0 = None" "objs heap0 (obj_addr a0) = None"
    by (simp_all add: heap0_def)
  from heap_inv_fresh_embedded [OF heap_inv_empty E, of mx]
  have 1: "makeShared mx (Some a0) True heap0 = Ok s h \<Longrightarrow> heap_inv mx h (owners [s]) (weaks [])"
    by auto
  from heap_inv_fresh_external [OF heap_inv_empty E, of p]
  have 2: "SharedPtr_from_pointer False p (Some a0) heap0 = Ok s h \<Longrightarrow>
     heap_inv False h (owners [s]) (weaks [])"
    by auto
  from assms 1 2 show ?thesis by auto
qed

lemma run_returns_only:
  "heap_inv mx h (owners sps) (weaks wps) \<Longrightarrow> list_all handle_op xs \<Longrightarrow>
     length sps + length wps + length xs + 2 < 2 ^ 64 \<Longrightarrow>
     run mx xs (sps, wps) h = Ok vs' h' \<Longrightarrow>
     xs = ys @ x # zs \<Longrightarrow> run mx ys (sps, wps) h = Ok vs1 h1 \<Longrightarrow>
     operands_ok vs1 x \<and> \<not> releases_last vs1 x"
proof (induction ys arbitrary: sps wps h xs)
  case Nil
  then have X: "handle_op x" and L: "length sps + 2 < 2 ^ 64" "length wps + 2 < 2 ^ 64"
    by simp_all
  have O: "outcome_ok mx (sps, wps) x (step mx x (sps, wps) h)"
    using step_inv [OF Nil.prems(1) X L] .
  from Nil.prems(4,5) obtain vs2 h2 where "step mx x (sps, wps) h = Ok vs2 h2"
    by (cases "step mx x (sps, wps) h") simp_all
  with O have "operands_ok (sps, wps) x \<and> \<not> releases_last (sps, wps) x"
    by (cases vs2) simp
  with Nil.prems(6) show ?case by simp
next
  case (Cons y ys)
  then have X: "handle_op y" and L: "length sps + 2 < 2 ^ 64" "length wps + 2 < 2 ^ 64"
    by simp_all
  have O: "outcome_ok mx (sps, wps) y (step mx y (sps, wps) h)"
    using step_inv [OF Cons.prems(1) X L] .
  from Cons.prems(6) obtain vs2 h2 where S: "step mx y (sps, wps) h = Ok vs2 h2"
    by (cases "step mx y (sps, wps) h") simp_all
  obtain sps2 wps2 where V: "vs2 = (sps2, wps2)" by (cases vs2)
  from O S V have I2: "heap_inv mx h2 (owners sps2) (weaks wps2)"
    and L2: "length sps2 + length wps2 \<le> length sps + length wps + 1"
    by simp_all
  have A2: "list_all handle_op (ys @ x # zs)" using Cons.prems(2,5) by simp
  have B2: "length sps2 + length wps2 + length (ys @ x # zs) + 2 < 2 ^ 64"
    using L2 Cons.prems(3,5) by simp
  have R2: "run mx (ys @ x # zs) (sps2, wps2) h2 = Ok vs' h'"
    using Cons.prems(4,5) S V by simp
  have P2: "run mx ys (sps2, wps2) h2 = Ok vs1 h1" using Cons.prems(6) S V by simp
  from Cons.IH [OF I2 A2 B2 R2 refl P2] show ?case .
qed

text \<open>
  Claim C1. Take the handles right after one factory call (or after the constructor
  from a raw pointer, for a pointee without the \<^verbatim>\<open>EnableSharedFromThis\<close> base), or any
  handles and heap that satisfy the counting invariant \<open>heap_inv\<close>, and run any sequence
  of copy, move, swap, assignment, \<^verbatim>\<open>reset()\<close>, \<^verbatim>\<open>lock()\<close> and destructor calls on owning
  and non-owning handles, with fewer than \<open>2 ^ 64\<close> handles in all. The run never throws.
  As long as it returns, the pointee of every block has been destroyed once if no owning
  handle refers to the block and not at all otherwise, every block is still referred to
  by a handle and its storage has not been given back, every handle that is not empty
  refers to such a block, the counters of every block are the numbers of owning and of
  non-owning handles that refer to it, no record of a destruction is lost, and no
  operation so far has given up the only handle of a block. The run
  stops at the first operation whose operands are not there or that builds a non-owning
  handle from an empty one (on the null pointer), and at the first operation that gives
  up the only handle of a block: there the block's destructor is called, which gives
  the storage back in its body and then goes on destroying the block in that storage.
  So the pointee is destroyed once, in the step that removes the last owning handle,
  and the storage is given back in the step that removes the last handle; but that
  step does not return: it is undefined.
\<close>

theorem C1_lifetime:
  assumes "heap_inv mx h (owners sps) (weaks wps) \<or>
     (sps = [s] \<and> wps = [] \<and> makeShared mx (Some a0) True heap0 = Ok s h) \<or>
     (\<not> mx \<and> sps = [s] \<and> wps = [] \<and> SharedPtr_from_pointer mx p (Some a0) heap0 = Ok s h)"
    and "list_all handle_op xs"
    and "length sps + length wps + length xs + 2 < 2 ^ 64"
  shows "case run mx xs (sps, wps) h of
           Ok vs' h' \<Rightarrow>
             (\<forall>a blk'. blocks h' a = Some blk' \<longrightarrow>
                length (destroyed_at blk') = (if owners (fst vs') a = 0 then 1 else 0) \<and>
                dealloc_calls blk' = 0 \<and>
                (0 < owners (fst vs') a \<or> 0 < weaks (snd vs') a) \<and>
                unat (shared_count blk') = owners (fst vs') a) \<and>
             (\<forall>a. 0 < owners (fst vs') a \<or> 0 < weaks (snd vs') a \<longrightarrow>
                (\<exists>blk'. live h' a blk')) \<and>
             heap_inv mx h' (owners (fst vs')) (weaks (snd vs')) \<and>
             grows h h' \<and>
             (\<forall>ys x zs vs1 h1. xs = ys @ x # zs \<and> run mx ys (sps, wps) h = Ok vs1 h1 \<longrightarrow>
                operands_ok vs1 x \<and> \<not> releases_last vs1 x)
         | Throw e h' \<Rightarrow> False
         | Undefined u \<Rightarrow>
             (\<exists>ys x zs vs1 h1. xs = ys @ x # zs \<and> run mx ys (sps, wps) h = Ok vs1 h1 \<and>
                (if operands_ok vs1 x then releases_last vs1 x \<and> u = Dangling
                 else u = NullDeref \<or> u = NoSuchHandle))"
proof -
  have I: "heap_inv mx h (owners sps) (weaks wps)" using assms(1) by (rule factory_inv)
  note R = run_lifetime [OF I assms(2,3)]
  show ?thesis
  proof (cases "run mx xs (sps, wps) h")
    case (Ok vs' h')
    with R have I': "heap_inv mx h' (owners (fst vs')) (weaks (snd vs'))" and G: "grows h h'"
      by simp_all
    have "\<forall>a blk'. blocks h' a = Some blk' \<longrightarrow>
        length (destroyed_at blk') = (if owners (fst vs') a = 0 then 1 else 0) \<and>
        dealloc_calls blk' = 0 \<and>
        (0 < owners (fst vs') a \<or> 0 < weaks (snd vs') a) \<and>
        unat (shared_count blk') = owners (fst vs') a"
      using heap_inv_counts [OF I'] by blast
    moreover have "\<forall>a. 0 < owners (fst vs') a \<or> 0 < weaks (snd vs') a \<longrightarrow>
        (\<exists>blk'. live h' a blk')"
      using heap_inv_live [OF I'] by blast
    moreover have "\<forall>ys x zs vs1 h1. xs = ys @ x # zs \<and> run mx ys (sps, wps) h = Ok vs1 h1 \<longrightarrow>
        operands_ok vs1 x \<and> \<not> releases_last vs1 x"
      using run_returns_only [OF I assms(2,3) Ok] by blast
    ultimately show ?thesis using Ok I' G by simp
  next
    case (Throw e h')
    with R show ?thesis by simp
  next
    case (Undefined u)
    with R show ?thesis by simp
  qed
qed

lemma c1_run:
  "run False [SCopy 0, WFromShared 0, SDtor 0, WCopy 0, SReset 1, WLock 0, WDtor 0]
      ([\<lparr>control_block = Some 100, pointer = Some 124\<rparr>], [])
      (put 100 ((BaseControlBlock Embeded)\<lparr>shared_count := 1\<rparr>) heap0) =
     Ok ([SharedPtr_default, SharedPtr_default, SharedPtr_default],
         [WeakPtr_default, \<lparr>wcontrol_block = Some 100\<rparr>])
        (put 100 \<lparr>shared_count = 0, weak_count = 1, variant = Embeded, destroyed_at = [1],
                  dealloc_calls = 0\<rparr> heap0)"
  by (simp add: heap0_def obj_addr_def obj_offset_def
       BaseControlBlock_def deref_def put_def SharedPtr_copy_def WeakPtr_from_shared_def
       SharedPtr_dtor_def SharedPtr_reset_def unlink_shared_pointer_from_the_control_block_def
       unlink_weak_pointer_from_the_control_block_def destroy_object_def destroy_block_def
       Let_def WeakPtr_copy_def WeakPtr_dtor_def WeakPtr_reset_def lock_def expired_def
       empty_SharedPtr_def empty_WeakPtr_def SharedPtr_default_def WeakPtr_default_def)

lemma c1_run_last:
  "step False (WReset 1)
      ([SharedPtr_default, SharedPtr_default, SharedPtr_default],
       [WeakPtr_default, \<lparr>wcontrol_block = Some 100\<rparr>])
      (put 100 \<lparr>shared_count = 0, weak_count = 1, variant = Embeded, destroyed_at = [1],
                dealloc_calls = 0\<rparr> heap0) = Undefined Dangling"
  by (simp add: heap0_def deref_def put_def
       unlink_weak_pointer_from_the_control_block_def destroy_block_def
       Let_def WeakPtr_reset_def)

text \<open>
  The handle made by \<^verbatim>\<open>makeShared\<close>, copied, observed, and released handle by handle.
  The release of the last owning handle destroys the pointee and leaves the block to
  the non-owning handle that remains; the release of that handle, the last one, is the
  step that does not return. Neither does the destructor of the handle right after
  \<^verbatim>\<open>makeShared\<close>, the only handle there is.
\<close>

theorem C1_lifetime_witness:
  "run False [SCopy 0, WFromShared 0, SDtor 0, WCopy 0, SReset 1, WLock 0, WDtor 0]
      ([\<lparr>control_block = Some 100, pointer = Some 124\<rparr>], [])
      (put 100 ((BaseControlBlock Embeded)\<lparr>shared_count := 1\<rparr>) heap0) =
     Ok ([SharedPtr_default, SharedPtr_default, SharedPtr_default],
         [WeakPtr_default, \<lparr>wcontrol_block = Some 100\<rparr>])
        (put 100 \<lparr>shared_count = 0, weak_count = 1, variant = Embeded, destroyed_at = [1],
                  dealloc_calls = 0\<rparr> heap0) \<and>
   heap_inv False
     (put 100 \<lparr>shared_count = 0, weak_count = 1, variant = Embeded, destroyed_at = [1],
               dealloc_calls = 0\<rparr> heap0)
     (owners [SharedPtr_default, SharedPtr_default, SharedPtr_default])
     (weaks [WeakPtr_default, \<lparr>wcontrol_block = Some 100\<rparr>]) \<and>
   grows (put 100 ((BaseControlBlock Embeded)\<lparr>shared_count := 1\<rparr>) heap0)
     (put 100 \<lparr>shared_count = 0, weak_count = 1, variant = Embeded, destroyed_at = [1],
               dealloc_calls = 0\<rparr> heap0) \<and>
   run False [SCopy 0, WFromShared 0, SDtor 0, WCopy 0, SReset 1, WLock 0, WDtor 0, WReset 1]
      ([\<lparr>control_block = Some 100, pointer = Some 124\<rparr>], [])
      (put 100 ((BaseControlBlock Embeded)\<lparr>shared_count := 1\<rparr>) heap0) = Undefined Dangling \<and>
   run False [SDtor 0]
      ([\<lparr>control_block = Some 100, pointer = Some 124\<rparr>], [])
      (put 100 ((BaseControlBlock Embeded)\<lparr>shared_count := 1\<rparr>) heap0) = Undefined Dangling"
proof -
  let ?xs = "[SCopy 0, WFromShared 0, SDtor 0, WCopy 0, SReset 1, WLock 0, WDtor 0]"
  let ?s = "\<lparr>control_block = Some (100::nat), pointer = Some (124::nat)\<rparr>"
  let ?h = "put 100 ((BaseControlBlock Embeded)\<lparr>shared_count := 1\<rparr>) heap0"
  have F: "makeShared False (Some 100) True heap0 = Ok ?s ?h"
    by (simp add: makeShared_plain obj_addr_def obj_offset_def)
  have L: "list_all handle_op ?xs"
    "length [?s] + length ([] :: WeakPtr list) + length ?xs + 2 < 2 ^ 64"
    by simp_all
  from C1_lifetime [where mx = False and h = ?h and sps = "[?s]" and wps = "[]" and s = ?s
      and ?a0.0 = 100 and xs = ?xs and p = None] F L
  have "case run False ?xs ([?s], []) ?h of
           Ok vs' h' \<Rightarrow>
             (\<forall>a blk'. blocks h' a = Some blk' \<longrightarrow>
                length (destroyed_at blk') = (if owners (fst vs') a = 0 then 1 else 0) \<and>
                dealloc_calls blk' = 0 \<and>
                (0 < owners (fst vs') a \<or> 0 < weaks (snd vs') a) \<and>
                unat (shared_count blk') = owners (fst vs') a) \<and>
             (\<forall>a. 0 < owners (fst vs') a \<or> 0 < weaks (snd vs') a \<longrightarrow>
                (\<exists>blk'. live h' a blk')) \<and>
             heap_inv False h' (owners (fst vs')) (weaks (snd vs')) \<and>
             grows ?h h' \<and>
             (\<forall>ys x zs vs1 h1. ?xs = ys @ x # zs \<and> run False ys ([?s], []) ?h = Ok vs1 h1 \<longrightarrow>
                operands_ok vs1 x \<and> \<not> releases_last vs1 x)
         | Throw e h' \<Rightarrow> False
         | Undefined u \<Rightarrow>
             (\<exists>ys x zs vs1 h1. ?xs = ys @ x # zs \<and> run False ys ([?s], []) ?h = Ok vs1 h1 \<and>
                (if operands_ok vs1 x then releases_last vs1 x \<and> u = Dangling
                 else u = NullDeref \<or> u = NoSuchHandle))"
    by blast
  then have A: "heap_inv False
     (put 100 \<lparr>shared_count = 0, weak_count = 1, variant = Embeded, destroyed_at = [1],
               dealloc_calls = 0\<rparr> heap0)
     (owners [SharedPtr_default, SharedPtr_default, SharedPtr_default])
     (weaks [WeakPtr_default, \<lparr>wcontrol_block = Some 100\<rparr>]) \<and>
   grows ?h
     (put 100 \<lparr>shared_count = 0, weak_count = 1, variant = Embeded, destroyed_at = [1],
               dealloc_calls = 0\<rparr> heap0)"
    unfolding c1_run by simp
  have "run False (?xs @ [WReset 1]) ([?s], []) ?h = Undefined Dangling"
    unfolding run_append c1_run using c1_run_last by simp
  moreover have "run False [SDtor 0] ([?s], []) ?h = Undefined Dangling"
    by (simp add: heap0_def BaseControlBlock_def deref_def put_def SharedPtr_dtor_def
        unlink_shared_pointer_from_the_control_block_def destroy_object_def destroy_block_def
        Let_def)
  ultimately show ?thesis using A c1_run by simp
qed










end
